theory Spec2Isabelle
  imports Complex_Main "HOL-Library.Word"
begin

section \<open>Strings of the script\<close>

text \<open>
  A JavaScript string is a sequence of 16-bit code units. The regular expressions of
  \<^verbatim>\<open>script.js\<close> carry no flag, so they work on code units as well. Identifiers of
  page elements and class names are plain ASCII and are kept as HOL strings.
\<close>

type_synonym jschar = "16 word"
type_synonym jsstring = "jschar list"

definition js :: "string \<Rightarrow> jsstring" where
  "js s = map of_char s"

text \<open>The white space and line terminator code points of ECMAScript.\<close>

definition isWhiteSpace :: "jschar \<Rightarrow> bool" where
  "isWhiteSpace c = (c = 0x09 \<or> c = 0x0B \<or> c = 0x0C \<or> c = 0x20 \<or> c = 0xA0 \<or> c = 0x1680
     \<or> (0x2000 \<le> c \<and> c \<le> 0x200A) \<or> c = 0x202F \<or> c = 0x205F \<or> c = 0x3000 \<or> c = 0xFEFF)"

definition isLineTerminator :: "jschar \<Rightarrow> bool" where
  "isLineTerminator c = (c = 0x0A \<or> c = 0x0D \<or> c = 0x2028 \<or> c = 0x2029)"

text \<open>What \<^verbatim>\<open>String.prototype.trim\<close> strips and what \<^verbatim>\<open>\s\<close> matches.\<close>

definition isStrWhiteSpaceChar :: "jschar \<Rightarrow> bool" where
  "isStrWhiteSpaceChar c = (isWhiteSpace c \<or> isLineTerminator c)"

definition trim :: "jsstring \<Rightarrow> jsstring" where
  "trim s = rev (dropWhile isStrWhiteSpaceChar (rev (dropWhile isStrWhiteSpaceChar s)))"

definition isDigit :: "jschar \<Rightarrow> bool" where
  "isDigit c = (0x30 \<le> c \<and> c \<le> 0x39)"

definition isAsciiLetter :: "jschar \<Rightarrow> bool" where
  "isAsciiLetter c = ((0x41 \<le> c \<and> c \<le> 0x5A) \<or> (0x61 \<le> c \<and> c \<le> 0x7A))"

text \<open>The class \<^verbatim>\<open>\w\<close>.\<close>

definition isWordChar :: "jschar \<Rightarrow> bool" where
  "isWordChar c = (isAsciiLetter c \<or> isDigit c \<or> c = 0x5F)"


section \<open>Regular expressions\<close>

text \<open>
  The fragment of the pattern language that the three patterns of the script use:
  the anchors \<^verbatim>\<open>^\<close> and \<^verbatim>\<open>$\<close>, character classes, sequence, alternative, the
  quantifier \<^verbatim>\<open>{k,}\<close> (so \<^verbatim>\<open>*\<close> is \<open>Rep 0\<close> and \<^verbatim>\<open>+\<close> is \<open>Rep 1\<close>) and
  the positive lookahead \<^verbatim>\<open>(?=...)\<close>.
\<close>

datatype regex =
    Bos
  | Eos
  | Eps
  | Cls "jschar \<Rightarrow> bool"
  | Seq regex regex
  | Alt regex regex
  | Rep nat regex
  | Look regex

text \<open>
  \<open>rmatch n r s\<close> lists what can be left of the suffix \<open>s\<close> of an input of length \<open>n\<close>
  once \<open>r\<close> has matched at the front of \<open>s\<close>. The script only calls \<^verbatim>\<open>test\<close>, which
  asks whether some match exists, so the order in which a backtracking matcher would
  try the alternatives is not kept. As in ECMAScript, an optional iteration of a
  quantifier that consumes nothing is dropped.
\<close>

function rmatch :: "nat \<Rightarrow> regex \<Rightarrow> jsstring \<Rightarrow> jsstring list" where
  "rmatch n Bos s = (if length s = n then [s] else [])"
| "rmatch n Eos s = (if s = [] then [s] else [])"
| "rmatch n Eps s = [s]"
| "rmatch n (Cls p) s = (case s of [] \<Rightarrow> [] | c # t \<Rightarrow> if p c then [t] else [])"
| "rmatch n (Seq a b) s = concat (map (rmatch n b) (rmatch n a s))"
| "rmatch n (Alt a b) s = rmatch n a s @ rmatch n b s"
| "rmatch n (Rep 0 a) s =
     s # concat (map (\<lambda>t. if length t < length s then rmatch n (Rep 0 a) t else []) (rmatch n a s))"
| "rmatch n (Rep (Suc k) a) s = concat (map (rmatch n (Rep k a)) (rmatch n a s))"
| "rmatch n (Look a) s = (if rmatch n a s = [] then [] else [s])"
  by pat_completeness auto
termination
  by (relation "measures [\<lambda>(n, r, s). size r, \<lambda>(n, r, s). (case r of Rep k _ \<Rightarrow> k | _ \<Rightarrow> 0),
                          \<lambda>(n, r, s). length s]") auto

text \<open>\<^verbatim>\<open>RegExp.prototype.test\<close> without the global flag: a match may start anywhere.\<close>

definition test :: "regex \<Rightarrow> jsstring \<Rightarrow> bool" where
  "test r s = list_ex (\<lambda>i. rmatch (length s) r (drop i s) \<noteq> []) [0 ..< Suc (length s)]"

definition Opt :: "regex \<Rightarrow> regex" where
  "Opt r = Alt r Eps"

definition Chr :: "jschar \<Rightarrow> regex" where
  "Chr c = Cls (\<lambda>x. x = c)"

fun Lit :: "jsstring \<Rightarrow> regex" where
  "Lit [] = Eps"
| "Lit (c # cs) = Seq (Chr c) (Lit cs)"

fun Seqs :: "regex list \<Rightarrow> regex" where
  "Seqs [] = Eps"
| "Seqs [r] = r"
| "Seqs (r # rs) = Seq r (Seqs rs)"

text \<open>The class \<^verbatim>\<open>[^\s@]\<close>.\<close>

definition notSpaceAt :: "jschar \<Rightarrow> bool" where
  "notSpaceAt c = (\<not> (isStrWhiteSpaceChar c \<or> c = 0x40))"

text \<open>The class \<^verbatim>\<open>[\w-]\<close>.\<close>

definition wordOrDash :: "jschar \<Rightarrow> bool" where
  "wordOrDash c = (isWordChar c \<or> c = 0x2D)"

text \<open>The class \<^verbatim>\<open>\S\<close>.\<close>

definition notSpace :: "jschar \<Rightarrow> bool" where
  "notSpace c = (\<not> isStrWhiteSpaceChar c)"

text \<open>The dot: any code unit but a line terminator.\<close>

definition anyChar :: "jschar \<Rightarrow> bool" where
  "anyChar c = (\<not> isLineTerminator c)"

text \<open>\<^verbatim>\<open>/^[^\s@]+@[^\s@]+\.[^\s@]{2,}$/\<close>\<close>

definition emailRegex :: regex where
  "emailRegex = Seqs [Bos, Rep 1 (Cls notSpaceAt), Chr 0x40, Rep 1 (Cls notSpaceAt), Chr 0x2E,
                      Rep 2 (Cls notSpaceAt), Eos]"

text \<open>\<^verbatim>\<open>/^(https?:\/\/)?([\w-]+\.)+[\w-]{2,}(\/\S*)?$/\<close>\<close>

definition urlRegex :: regex where
  "urlRegex = Seqs [Bos,
      Opt (Seqs [Lit (js ''http''), Opt (Chr 0x73), Lit (js ''://'')]),
      Rep 1 (Seq (Rep 1 (Cls wordOrDash)) (Chr 0x2E)),
      Rep 2 (Cls wordOrDash),
      Opt (Seq (Chr 0x2F) (Rep 0 (Cls notSpace))),
      Eos]"

text \<open>\<^verbatim>\<open>/^(?=.*[A-Za-z])(?=.*\d).{8,}$/\<close>\<close>

definition passwordRegex :: regex where
  "passwordRegex = Seqs [Bos,
      Look (Seq (Rep 0 (Cls anyChar)) (Cls isAsciiLetter)),
      Look (Seq (Rep 0 (Cls anyChar)) (Cls isDigit)),
      Rep 8 (Cls anyChar),
      Eos]"


section \<open>Coercion of a string to a number\<close>

text \<open>
  \<^verbatim>\<open>Number(s)\<close> on a string: the string is trimmed, the empty string is 0, a binary,
  octal or hexadecimal integer literal or a signed decimal literal gives its value
  rounded to the nearest double (ties to even), and anything else is NaN. A finite
  double is kept as the rational it denotes; the two zeros are not told apart, since
  the script only tests the number for truthiness and compares it.
\<close>

datatype jsnum = NaN | PosInf | NegInf | Fin rat

definition isHexDigit :: "jschar \<Rightarrow> bool" where
  "isHexDigit c = (isDigit c \<or> (0x41 \<le> c \<and> c \<le> 0x46) \<or> (0x61 \<le> c \<and> c \<le> 0x66))"

definition isOctalDigit :: "jschar \<Rightarrow> bool" where
  "isOctalDigit c = (0x30 \<le> c \<and> c \<le> 0x37)"

definition isBinaryDigit :: "jschar \<Rightarrow> bool" where
  "isBinaryDigit c = (c = 0x30 \<or> c = 0x31)"

definition digitValue :: "jschar \<Rightarrow> nat" where
  "digitValue c = (if isDigit c then unat c - 0x30
                   else if 0x61 \<le> c then unat c - 0x57 else unat c - 0x37)"

definition digitsValue :: "nat \<Rightarrow> jsstring \<Rightarrow> nat" where
  "digitsValue b ds = foldl (\<lambda>a c. a * b + digitValue c) 0 ds"

definition pow2 :: "int \<Rightarrow> rat" where
  "pow2 e = (if 0 \<le> e then 2 ^ nat e else 1 / 2 ^ nat (- e))"

definition pow10 :: "int \<Rightarrow> rat" where
  "pow10 e = (if 0 \<le> e then 10 ^ nat e else 1 / 10 ^ nat (- e))"

fun ilog2 :: "nat \<Rightarrow> nat" where
  "ilog2 n = (if n < 2 then 0 else Suc (ilog2 (n div 2)))"

declare ilog2.simps [simp del]

definition roundTiesToEven :: "rat \<Rightarrow> int" where
  "roundTiesToEven x =
     (let f = \<lfloor>x\<rfloor>; d = x - of_int f
      in if d < 1 / 2 then f else if 1 / 2 < d then f + 1 else if even f then f else f + 1)"

text \<open>
  Rounding to binary64: \<open>e\<close> is the exponent of the binade of \<open>\<bar>x\<bar>\<close> (not below that
  of the subnormal range), neighbouring doubles there are \<open>2 ^ (e - 52)\<close> apart, and a
  result of \<open>2 ^ 1024\<close> or more overflows to an infinity.
\<close>

definition toDouble :: "rat \<Rightarrow> jsnum" where
  "toDouble x =
     (if x = 0 then Fin 0
      else
        let m = \<bar>x\<bar>;
            (p, q) = quotient_of m;
            d = int (ilog2 (nat p)) - int (ilog2 (nat q));
            e = max (if pow2 d \<le> m then d else d - 1) (- 1022);
            ulp = pow2 (e - 52);
            k = roundTiesToEven (m / ulp)
        in if 1023 < e \<or> (e = 1023 \<and> 2 ^ 53 \<le> k) then (if x < 0 then NegInf else PosInf)
           else Fin (if x < 0 then - (of_int k * ulp) else of_int k * ulp))"

definition parseNonDecimal :: "jsstring \<Rightarrow> nat option" where
  "parseNonDecimal t =
     (case t of
        z # x # ds \<Rightarrow>
          if z = 0x30 \<and> ds \<noteq> [] then
            if (x = 0x78 \<or> x = 0x58) \<and> list_all isHexDigit ds then Some (digitsValue 16 ds)
            else if (x = 0x6F \<or> x = 0x4F) \<and> list_all isOctalDigit ds then Some (digitsValue 8 ds)
            else if (x = 0x62 \<or> x = 0x42) \<and> list_all isBinaryDigit ds then Some (digitsValue 2 ds)
            else None
          else None
      | _ \<Rightarrow> None)"

definition parseExponentPart :: "jsstring \<Rightarrow> int option" where
  "parseExponentPart r =
     (case r of
        [] \<Rightarrow> Some 0
      | c # ds \<Rightarrow>
          if c = 0x65 \<or> c = 0x45 then
            (case ds of
               [] \<Rightarrow> None
             | g # ds' \<Rightarrow>
                 if g = 0x2D then
                   (if ds' \<noteq> [] \<and> list_all isDigit ds' then Some (- int (digitsValue 10 ds')) else None)
                 else if g = 0x2B then
                   (if ds' \<noteq> [] \<and> list_all isDigit ds' then Some (int (digitsValue 10 ds')) else None)
                 else
                   (if list_all isDigit ds then Some (int (digitsValue 10 ds)) else None))
          else None)"

definition parseUnsignedDecimal :: "jsstring \<Rightarrow> jsnum" where
  "parseUnsignedDecimal t =
     (if t = js ''Infinity'' then PosInf
      else
        let ip = takeWhile isDigit t;
            r1 = dropWhile isDigit t;
            dot = (r1 \<noteq> [] \<and> hd r1 = 0x2E);
            fp = (if dot then takeWhile isDigit (tl r1) else []);
            r2 = (if dot then dropWhile isDigit (tl r1) else r1)
        in if ip = [] \<and> fp = [] then NaN
           else (case parseExponentPart r2 of
                   None \<Rightarrow> NaN
                 | Some e \<Rightarrow> Fin (of_nat (digitsValue 10 (ip @ fp)) * pow10 (e - int (length fp)))))"

definition roundMV :: "jsnum \<Rightarrow> jsnum" where
  "roundMV v = (case v of Fin x \<Rightarrow> toDouble x | _ \<Rightarrow> v)"

definition negate :: "jsnum \<Rightarrow> jsnum" where
  "negate v = (case v of NaN \<Rightarrow> NaN | PosInf \<Rightarrow> NegInf | NegInf \<Rightarrow> PosInf | Fin x \<Rightarrow> Fin (- x))"

definition Number :: "jsstring \<Rightarrow> jsnum" where
  "Number s =
     (let t = trim s
      in if t = [] then Fin 0
         else (case parseNonDecimal t of
                 Some n \<Rightarrow> toDouble (of_nat n)
               | None \<Rightarrow>
                   if hd t = 0x2D then negate (roundMV (parseUnsignedDecimal (tl t)))
                   else if hd t = 0x2B then roundMV (parseUnsignedDecimal (tl t))
                   else roundMV (parseUnsignedDecimal t)))"

text \<open>Truthiness of a number, and the comparisons, which are false on NaN.\<close>

definition truthy :: "jsnum \<Rightarrow> bool" where
  "truthy v = (case v of NaN \<Rightarrow> False | Fin x \<Rightarrow> x \<noteq> 0 | _ \<Rightarrow> True)"

definition lessThan :: "jsnum \<Rightarrow> rat \<Rightarrow> bool" where
  "lessThan v b = (case v of NaN \<Rightarrow> False | PosInf \<Rightarrow> False | NegInf \<Rightarrow> True | Fin x \<Rightarrow> x < b)"

definition greaterThan :: "jsnum \<Rightarrow> rat \<Rightarrow> bool" where
  "greaterThan v b = (case v of NaN \<Rightarrow> False | PosInf \<Rightarrow> True | NegInf \<Rightarrow> False | Fin x \<Rightarrow> b < x)"


section \<open>The page\<close>

text \<open>
  The page is the list of its elements in document order. Of an element the script
  reads and writes the identifier, the value and checkedness of a control, the text
  content, and the class list; resetting the form needs the defaults of a control, its
  form owner and what a reset does to it, and \<^verbatim>\<open>focus()\<close> only moves the focus to an
  element that can take it. The markup is not part of the script, so all of it is left
  open.

  A reset treats controls in three ways. A text-like input (text, email, password,
  number, url) gets the value and the checkedness that the markup presets. A checkbox,
  a radio button or a button-like input gets the preset checkedness only: its
  \<^verbatim>\<open>value\<close> is read from the markup (``on'' for a checkbox without a value
  attribute) and a reset does not touch it. Any other element is not reset at all.
\<close>

datatype reset = ResetsValue | KeepsValue | NotResettable

record element =
  elemId :: string
  elemValue :: jsstring
  checked :: bool
  textContent :: jsstring
  classList :: "string list"
  defaultValue :: jsstring
  defaultChecked :: bool
  formOwner :: "string option"
  resets :: reset
  focusable :: bool

type_synonym document = "element list"

record page =
  elements :: document
  activeElement :: "nat option"

datatype error = TypeError

definition getElementById :: "string \<Rightarrow> document \<Rightarrow> element option" where
  "getElementById i d = find (\<lambda>e. elemId e = i) d"

text \<open>
  The script keeps references to the elements it looked up when the page was loaded.
  No identifier ever changes, so a reference is modelled by its identifier, and a write
  through the reference changes the first element with that identifier. Reading a
  property of a missing element throws.
\<close>

fun updateById :: "string \<Rightarrow> (element \<Rightarrow> element) \<Rightarrow> document \<Rightarrow> document" where
  "updateById i f [] = []"
| "updateById i f (e # es) = (if elemId e = i then f e # es else e # updateById i f es)"

definition bindE :: "error + 'a \<Rightarrow> ('a \<Rightarrow> error + 'b) \<Rightarrow> error + 'b" where
  "bindE r f = (case r of Inl x \<Rightarrow> Inl x | Inr a \<Rightarrow> f a)"

definition deref :: "string \<Rightarrow> document \<Rightarrow> error + element" where
  "deref i d = (case getElementById i d of None \<Rightarrow> Inl TypeError | Some e \<Rightarrow> Inr e)"

definition setTextContent :: "string \<Rightarrow> jsstring \<Rightarrow> document \<Rightarrow> error + document" where
  "setTextContent i t d =
     bindE (deref i d) (\<lambda>_. Inr (updateById i (\<lambda>e. e\<lparr>textContent := t\<rparr>) d))"

definition classAdd :: "string \<Rightarrow> element \<Rightarrow> element" where
  "classAdd c e = (if c \<in> set (classList e) then e else e\<lparr>classList := classList e @ [c]\<rparr>)"

definition classRemove :: "string \<Rightarrow> element \<Rightarrow> element" where
  "classRemove c e = e\<lparr>classList := removeAll c (classList e)\<rparr>"

definition showError :: "string \<Rightarrow> jsstring \<Rightarrow> document \<Rightarrow> error + document" where
  "showError el message d =
     bindE (setTextContent (el @ ''-error'') message d)
       (\<lambda>d'. Inr (updateById el (classAdd ''invalid'') d'))"

definition clearError :: "string \<Rightarrow> document \<Rightarrow> error + document" where
  "clearError el d =
     bindE (setTextContent (el @ ''-error'') [] d)
       (\<lambda>d'. Inr (updateById el (classRemove ''invalid'') d'))"


section \<open>The validators\<close>

text \<open>
  A validator returns its boolean and the page as it leaves it, or the exception it
  throws. Nothing in the script catches an exception, so it ends the handler that runs
  the validator; the page that a handler leaves behind when it throws is not kept.
  Every element that the script reads a value from is taken to be a form control, whose
  \<^verbatim>\<open>value\<close> is a string.
\<close>

type_synonym outcome = "error + bool \<times> document"

definition returning :: "bool \<Rightarrow> error + document \<Rightarrow> outcome" where
  "returning b r = bindE r (\<lambda>d. Inr (b, d))"

definition nameMessage :: jsstring where
  "nameMessage = js ''Please enter your full name (at least 2 characters).''"

definition emailMessage :: jsstring where
  "emailMessage = js ''Please enter a valid email address.''"

definition passwordMessage :: jsstring where
  "passwordMessage = js ''Password must be 8+ characters and include letters and numbers.''"

definition confirmMessage :: jsstring where
  "confirmMessage = js ''Passwords do not match.''"

definition ageMessage :: jsstring where
  "ageMessage = js ''Enter a valid age (13 - 120).''"

definition websiteMessage :: jsstring where
  "websiteMessage = js ''Please enter a valid URL (or leave blank).''"

definition termsMessage :: jsstring where
  "termsMessage = js ''You must accept the terms.''"

definition validateName :: "document \<Rightarrow> outcome" where
  "validateName d =
     bindE (deref ''name'' d) (\<lambda>nameInput.
       let v = trim (elemValue nameInput)
       in if length v < 2 then returning False (showError ''name'' nameMessage d)
          else returning True (clearError ''name'' d))"

definition validateEmail :: "document \<Rightarrow> outcome" where
  "validateEmail d =
     bindE (deref ''email'' d) (\<lambda>emailInput.
       let v = trim (elemValue emailInput)
       in if \<not> test emailRegex v then returning False (showError ''email'' emailMessage d)
          else returning True (clearError ''email'' d))"

definition validatePassword :: "document \<Rightarrow> outcome" where
  "validatePassword d =
     bindE (deref ''password'' d) (\<lambda>passwordInput.
       let v = elemValue passwordInput
       in if \<not> test passwordRegex v then returning False (showError ''password'' passwordMessage d)
          else returning True (clearError ''password'' d))"

definition validateConfirm :: "document \<Rightarrow> outcome" where
  "validateConfirm d =
     bindE (deref ''confirm-password'' d) (\<lambda>confirmInput.
     bindE (deref ''password'' d) (\<lambda>passwordInput.
       if elemValue confirmInput \<noteq> elemValue passwordInput
       then returning False (showError ''confirm-password'' confirmMessage d)
       else returning True (clearError ''confirm-password'' d)))"

definition validateAge :: "document \<Rightarrow> outcome" where
  "validateAge d =
     bindE (deref ''age'' d) (\<lambda>ageInput.
       let v = Number (elemValue ageInput)
       in if \<not> truthy v \<or> lessThan v 13 \<or> greaterThan v 120
          then returning False (showError ''age'' ageMessage d)
          else returning True (clearError ''age'' d))"

definition validateWebsite :: "document \<Rightarrow> outcome" where
  "validateWebsite d =
     bindE (deref ''website'' d) (\<lambda>websiteInput.
       let v = trim (elemValue websiteInput)
       in if v = [] then returning True (clearError ''website'' d)
          else if \<not> test urlRegex v then returning False (showError ''website'' websiteMessage d)
          else returning True (clearError ''website'' d))"

definition validateTerms :: "document \<Rightarrow> outcome" where
  "validateTerms d =
     bindE (deref ''terms'' d) (\<lambda>termsCheckbox.
       if \<not> checked termsCheckbox
       then returning False (setTextContent ''terms-error'' termsMessage d)
       else returning True (setTextContent ''terms-error'' [] d))"


section \<open>Submitting the form\<close>

text \<open>
  The array literal of the submit handler calls the seven validators from left to
  right, each on the page the one before left; \<^verbatim>\<open>every\<close> then looks at the results.
\<close>

fun runAll :: "(document \<Rightarrow> outcome) list \<Rightarrow> document \<Rightarrow> error + bool list \<times> document" where
  "runAll [] d = Inr ([], d)"
| "runAll (f # fs) d =
     bindE (f d) (\<lambda>(b, d'). bindE (runAll fs d') (\<lambda>(bs, d''). Inr (b # bs, d'')))"

definition validators :: "(document \<Rightarrow> outcome) list" where
  "validators = [validateName, validateEmail, validatePassword, validateConfirm, validateAge,
                 validateWebsite, validateTerms]"

definition validateAll :: "document \<Rightarrow> outcome" where
  "validateAll d = bindE (runAll validators d) (\<lambda>(bs, d'). Inr (list_all (\<lambda>v. v = True) bs, d'))"


text \<open>
  \<^verbatim>\<open>form.reset()\<close>: every control owned by the form is reset in the way of its
  kind.
\<close>

definition resetControl :: "element \<Rightarrow> element" where
  "resetControl e =
     (case resets e of
        ResetsValue \<Rightarrow> e\<lparr>elemValue := defaultValue e, checked := defaultChecked e\<rparr>
      | KeepsValue \<Rightarrow> e\<lparr>checked := defaultChecked e\<rparr>
      | NotResettable \<Rightarrow> e)"




definition focus :: "nat \<Rightarrow> page \<Rightarrow> page" where
  "focus i pg = (if focusable (elements pg ! i) then pg\<lparr>activeElement := Some i\<rparr> else pg)"




section \<open>Observations on a page\<close>

text \<open>
  What the statements below look at: whether an element is there, what a control
  holds, the text of the error label that belongs to a field (its identifier with
  \<^verbatim>\<open>-error\<close> appended), and whether the field carries the class \<^verbatim>\<open>invalid\<close>.
\<close>

definition present :: "string \<Rightarrow> document \<Rightarrow> bool" where
  "present i d = (getElementById i d \<noteq> None)"

definition fieldValue :: "string \<Rightarrow> document \<Rightarrow> jsstring" where
  "fieldValue i d = (case getElementById i d of None \<Rightarrow> [] | Some e \<Rightarrow> elemValue e)"

definition fieldChecked :: "string \<Rightarrow> document \<Rightarrow> bool" where
  "fieldChecked i d = (case getElementById i d of None \<Rightarrow> False | Some e \<Rightarrow> checked e)"

definition errorText :: "string \<Rightarrow> document \<Rightarrow> jsstring option" where
  "errorText i d = map_option textContent (getElementById (i @ ''-error'') d)"

definition markedInvalid :: "string \<Rightarrow> document \<Rightarrow> bool" where
  "markedInvalid i d =
     (case getElementById i d of None \<Rightarrow> False | Some e \<Rightarrow> ''invalid'' \<in> set (classList e))"

definition returned :: "outcome \<Rightarrow> bool option" where
  "returned r = (case r of Inl _ \<Rightarrow> None | Inr (b, _) \<Rightarrow> Some b)"

definition docAfter :: "outcome \<Rightarrow> document" where
  "docAfter r = (case r of Inl _ \<Rightarrow> [] | Inr (_, d) \<Rightarrow> d)"




text \<open>
  The precondition of the validators: the seven controls and their seven error labels
  are on the page. The submit handler also needs the form and the box for the success
  message.
\<close>

definition requiredIds :: "string list" where
  "requiredIds = [''name'', ''name-error'', ''email'', ''email-error'', ''password'', ''password-error'',
     ''confirm-password'', ''confirm-password-error'', ''age'', ''age-error'',
     ''website'', ''website-error'', ''terms'', ''terms-error'']"

definition wired :: "document \<Rightarrow> bool" where
  "wired d = list_all (\<lambda>i. present i d) requiredIds"


text \<open>The six fields whose validators go through showError and clearError.\<close>

definition textFields :: "(string \<times> jsstring \<times> (document \<Rightarrow> outcome)) list" where
  "textFields = [(''name'', nameMessage, validateName), (''email'', emailMessage, validateEmail),
     (''password'', passwordMessage, validatePassword),
     (''confirm-password'', confirmMessage, validateConfirm),
     (''age'', ageMessage, validateAge), (''website'', websiteMessage, validateWebsite)]"

text \<open>All seven fields with their validators, in the order of the submit handler.\<close>

definition allFields :: "(string \<times> jsstring \<times> (document \<Rightarrow> outcome)) list" where
  "allFields = textFields @ [(''terms'', termsMessage, validateTerms)]"

text \<open>The user types into a control or ticks it.\<close>

definition userInput :: "string \<Rightarrow> jsstring \<Rightarrow> bool \<Rightarrow> document \<Rightarrow> document" where
  "userInput i v c d = updateById i (\<lambda>e. e\<lparr>elemValue := v, checked := c\<rparr>) d"


section \<open>A sample page\<close>

definition blank :: "string \<Rightarrow> element" where
  "blank i = \<lparr>elemId = i, elemValue = [], checked = False, textContent = [], classList = [],
              defaultValue = [], defaultChecked = False, formOwner = None,
              resets = NotResettable, focusable = False\<rparr>"

text \<open>A text-like input of the form, with nothing preset.\<close>

definition control :: "string \<Rightarrow> jsstring \<Rightarrow> bool \<Rightarrow> element" where
  "control i v c = (blank i)\<lparr>elemValue := v, checked := c, formOwner := Some ''signup-form'',
                              resets := ResetsValue, focusable := True\<rparr>"

text \<open>A checkbox of the form without a value attribute, and a button of the form.\<close>

definition checkbox :: "string \<Rightarrow> bool \<Rightarrow> element" where
  "checkbox i c = (blank i)\<lparr>elemValue := js ''on'', checked := c, formOwner := Some ''signup-form'',
                             resets := KeepsValue, focusable := True\<rparr>"

definition button :: "string \<Rightarrow> element" where
  "button i = (blank i)\<lparr>formOwner := Some ''signup-form'', focusable := True\<rparr>"

text \<open>
  A form filled in so that every field is valid. Its last element, at position 16, is
  the button that submits it.
\<close>

definition filledForm :: document where
  "filledForm =
     [blank ''signup-form'',
      control ''name'' (js ''Ada Lovelace'') False, blank ''name-error'',
      control ''email'' (js ''ada@example.org'') False, blank ''email-error'',
      control ''password'' (js ''abcdefg1'') False, blank ''password-error'',
      control ''confirm-password'' (js ''abcdefg1'') False, blank ''confirm-password-error'',
      control ''age'' (js ''36'') False, blank ''age-error'',
      control ''website'' [] False, blank ''website-error'',
      checkbox ''terms'' True, blank ''terms-error'',
      blank ''form-success'',
      button ''submit'']"


section \<open>The validators in one shape\<close>

text \<open>
  Each validator decides on the values of the controls alone and then writes the
  verdict to the page. The decision and the write are named here, so that each
  validator can be shown equal to their composition.
\<close>

definition nameOk :: "document \<Rightarrow> bool" where
  "nameOk d = (\<not> length (trim (fieldValue ''name'' d)) < 2)"

definition emailOk :: "document \<Rightarrow> bool" where
  "emailOk d = test emailRegex (trim (fieldValue ''email'' d))"

definition passwordOk :: "document \<Rightarrow> bool" where
  "passwordOk d = test passwordRegex (fieldValue ''password'' d)"

definition confirmOk :: "document \<Rightarrow> bool" where
  "confirmOk d = (fieldValue ''confirm-password'' d = fieldValue ''password'' d)"

definition ageOk :: "document \<Rightarrow> bool" where
  "ageOk d = (let v = Number (fieldValue ''age'' d)
              in \<not> (\<not> truthy v \<or> lessThan v 13 \<or> greaterThan v 120))"

definition websiteOk :: "document \<Rightarrow> bool" where
  "websiteOk d = (let v = trim (fieldValue ''website'' d) in v = [] \<or> test urlRegex v)"

definition termsOk :: "document \<Rightarrow> bool" where
  "termsOk d = fieldChecked ''terms'' d"

definition reportText :: "string \<Rightarrow> jsstring \<Rightarrow> bool \<Rightarrow> document \<Rightarrow> document" where
  "reportText i msg ok d =
     updateById (i @ ''-error'') (\<lambda>e. e\<lparr>textContent := (if ok then [] else msg)\<rparr>) d"

definition report :: "string \<Rightarrow> jsstring \<Rightarrow> bool \<Rightarrow> document \<Rightarrow> document" where
  "report i msg ok d =
     updateById i (if ok then classRemove ''invalid'' else classAdd ''invalid'')
       (updateById (i @ ''-error'') (\<lambda>e. e\<lparr>textContent := (if ok then [] else msg)\<rparr>) d)"

definition checkField :: "string \<Rightarrow> jsstring \<Rightarrow> bool \<Rightarrow> document \<Rightarrow> outcome" where
  "checkField i msg ok d =
     (case getElementById (i @ ''-error'') d of
        None \<Rightarrow> Inl TypeError
      | Some _ \<Rightarrow> Inr (ok, report i msg ok d))"

definition idPreserving :: "(element \<Rightarrow> element) \<Rightarrow> bool" where
  "idPreserving f = (\<forall>e. elemId (f e) = elemId e)"

definition valuePreserving :: "(element \<Rightarrow> element) \<Rightarrow> bool" where
  "valuePreserving f =
     (\<forall>e. elemId (f e) = elemId e \<and> elemValue (f e) = elemValue e \<and> checked (f e) = checked e)"




text \<open>
  What a new value \<open>v\<close> (and checkedness \<open>c\<close>) of the one field \<open>i\<close> does to a page:
  the aggregate run fails, each other validator returns what it returned before, the
  validator of the confirm field set aside when the password changes, and that one
  fails then.
\<close>

definition flipEffect :: "document \<Rightarrow> string \<Rightarrow> jsstring \<Rightarrow> bool \<Rightarrow> bool" where
  "flipEffect d i v c =
     (returned (validateAll (userInput i v c d)) = Some False
       \<and> list_all (\<lambda>(j, m, g). j = i \<or> (i = ''password'' \<and> j = ''confirm-password'')
                     \<or> returned (g (userInput i v c d)) = returned (g d)) allFields
       \<and> (i = ''password'' \<longrightarrow> returned (validateConfirm (userInput i v c d)) = Some False))"


section \<open>Languages of patterns\<close>

text \<open>
  A pattern without anchors and lookahead consumes a word of a language from the
  front of its input; a pattern that ends in \<^verbatim>\<open>$\<close> accepts the inputs of a language.
\<close>

definition consumes :: "regex \<Rightarrow> jsstring set \<Rightarrow> bool" where
  "consumes r A = (\<forall>n s t. t \<in> set (rmatch n r s) \<longleftrightarrow> (\<exists>u \<in> A. s = u @ t))"

definition accepts :: "regex \<Rightarrow> jsstring set \<Rightarrow> bool" where
  "accepts r A = (\<forall>n s. rmatch n r s \<noteq> [] \<longleftrightarrow> s \<in> A)"

definition conc :: "jsstring set \<Rightarrow> jsstring set \<Rightarrow> jsstring set" where
  "conc A B = {u @ v | u v. u \<in> A \<and> v \<in> B}"

definition repeats :: "nat \<Rightarrow> jsstring set \<Rightarrow> jsstring set" where
  "repeats k A = {concat us | us. k \<le> length us \<and> set us \<subseteq> A}"

definition unitOf :: "(jschar \<Rightarrow> bool) \<Rightarrow> jsstring set" where
  "unitOf p = {[c] | c. p c}"

definition wordsOf :: "nat \<Rightarrow> (jschar \<Rightarrow> bool) \<Rightarrow> jsstring set" where
  "wordsOf k p = {w. k \<le> length w \<and> list_all p w}"


section \<open>Shapes of accepted strings\<close>

text \<open>
  The email shape that the pattern accepts, first as a decomposition and then as a
  test that can be run: no white space, exactly one \<^verbatim>\<open>@\<close>, something before it,
  and after it a dot that has at least one character before it and at least two
  characters after it.
\<close>

definition emailParts :: "jsstring \<Rightarrow> bool" where
  "emailParts v = (\<exists>l d t. v = l @ 0x40 # d @ 0x2E # t \<and> l \<noteq> [] \<and> d \<noteq> [] \<and> 2 \<le> length t
      \<and> list_all notSpaceAt l \<and> list_all notSpaceAt d \<and> list_all notSpaceAt t)"

definition emailShape :: "jsstring \<Rightarrow> bool" where
  "emailShape v =
     (\<not> list_ex isStrWhiteSpaceChar v \<and> count_list v 0x40 = 1 \<and>
      (let local = takeWhile (\<lambda>c. c \<noteq> 0x40) v;
           domain = tl (dropWhile (\<lambda>c. c \<noteq> 0x40) v)
       in local \<noteq> [] \<and> list_ex (\<lambda>i. domain ! i = 0x2E) [1 ..< length domain - 2]))"

text \<open>
  The email shape in the words of the specification: of the form local, \<^verbatim>\<open>@\<close>,
  domain, dot, final label, with no white space, exactly one \<^verbatim>\<open>@\<close>, a dot in the
  part after it, and a final label, the part after the last dot, of at least two
  characters. The local part and the domain before the last dot are taken to be
  non-empty.
\<close>

definition specEmailShape :: "jsstring \<Rightarrow> bool" where
  "specEmailShape v =
     (\<not> list_ex isStrWhiteSpaceChar v \<and> count_list v 0x40 = 1 \<and>
      (let local = takeWhile (\<lambda>c. c \<noteq> 0x40) v;
           domain = tl (dropWhile (\<lambda>c. c \<noteq> 0x40) v);
           tld = rev (takeWhile (\<lambda>c. c \<noteq> 0x2E) (rev domain))
       in local \<noteq> [] \<and> 0x2E \<in> set domain \<and> 2 \<le> length tld \<and> length tld + 1 < length domain))"

text \<open>
  The URL shape in the words of the specification: an optional \<^verbatim>\<open>http://\<close> or
  \<^verbatim>\<open>https://\<close>, one or more labels each followed by a dot, a final label of at
  least two characters, and an optional path that starts with a slash. The
  specification leaves the characters open; a label is made of word characters and
  hyphens and a path holds no white space, as in the pattern.
\<close>

definition specUrlShape :: "jsstring \<Rightarrow> bool" where
  "specUrlShape v =
     (\<exists>scheme labels tld path.
         v = scheme @ concat (map (\<lambda>l. l @ [0x2E]) labels) @ tld @ path
       \<and> scheme \<in> {[], js ''http://'', js ''https://''}
       \<and> labels \<noteq> [] \<and> (\<forall>l \<in> set labels. l \<noteq> [] \<and> list_all wordOrDash l)
       \<and> 2 \<le> length tld \<and> list_all wordOrDash tld
       \<and> (path = [] \<or> (\<exists>p. path = 0x2F # p \<and> list_all notSpace p)))"

definition urlSchemes :: "jsstring set" where
  "urlSchemes = insert [] (conc {js ''http''} (conc (insert [] {[0x73]}) {js ''://''}))"

definition urlLabels :: "jsstring set" where
  "urlLabels = repeats 1 (conc (wordsOf 1 wordOrDash) {[0x2E]})"

definition urlPaths :: "jsstring set" where
  "urlPaths = insert [] (conc {[0x2F]} (wordsOf 0 notSpace))"

text \<open>
  The valid ages in the words of the specification: the coerced number is numeric,
  not zero, and between 13 and 120 inclusive.
\<close>

definition specAgeValid :: "jsstring \<Rightarrow> bool" where
  "specAgeValid s = (case Number s of Fin x \<Rightarrow> x \<noteq> 0 \<and> 13 \<le> x \<and> x \<le> 120 | _ \<Rightarrow> False)"



section \<open>Lookups and writes\<close>

lemma idPreserving_simps [simp]:
  "idPreserving (classAdd c)" "idPreserving (classRemove c)"
  "idPreserving (\<lambda>e. e\<lparr>textContent := t\<rparr>)"
  by (simp_all add: idPreserving_def classAdd_def classRemove_def)

lemma getElementById_updateById:
  "idPreserving f \<Longrightarrow>
   getElementById i (updateById j f d) =
     (if i = j then map_option f (getElementById i d) else getElementById i d)"
  by (induction d) (auto simp: getElementById_def idPreserving_def)

lemma updateById_twice:
  "idPreserving g \<Longrightarrow> updateById i f (updateById i g d) = updateById i (f \<circ> g) d"
  by (induction d) (auto simp: idPreserving_def)

lemma updateById_commute:
  "i \<noteq> j \<Longrightarrow> idPreserving f \<Longrightarrow> idPreserving g \<Longrightarrow>
   updateById i f (updateById j g d) = updateById j g (updateById i f d)"
  by (induction d) (auto simp: idPreserving_def)

lemma updateById_cong:
  "(\<And>e. e \<in> set d \<Longrightarrow> f e = g e) \<Longrightarrow> updateById i f d = updateById i g d"
  by (induction d) auto

lemma error_id_neq [simp]: "i @ ''-error'' \<noteq> i" "i \<noteq> i @ ''-error''"
  by (auto dest: arg_cong [where f = length])

lemma setTextContent_eq:
  "getElementById i d = Some e \<Longrightarrow>
   setTextContent i t d = Inr (updateById i (\<lambda>e. e\<lparr>textContent := t\<rparr>) d)"
  by (simp add: setTextContent_def deref_def bindE_def)

lemma setTextContent_None:
  "getElementById i d = None \<Longrightarrow> setTextContent i t d = Inl TypeError"
  by (simp add: setTextContent_def deref_def bindE_def)

lemma showError_eq:
  "getElementById (i @ ''-error'') d = Some l \<Longrightarrow>
   returning False (showError i msg d) = Inr (False, report i msg False d)"
  by (simp add: showError_def returning_def bindE_def setTextContent_eq report_def)

lemma clearError_eq:
  "getElementById (i @ ''-error'') d = Some l \<Longrightarrow>
   returning True (clearError i d) = Inr (True, report i msg True d)"
  by (simp add: clearError_def returning_def bindE_def setTextContent_eq report_def)

lemma showError_None:
  "getElementById (i @ ''-error'') d = None \<Longrightarrow> returning b (showError i msg d) = Inl TypeError"
  by (simp add: showError_def returning_def bindE_def setTextContent_None)

lemma clearError_None:
  "getElementById (i @ ''-error'') d = None \<Longrightarrow> returning b (clearError i d) = Inl TypeError"
  by (simp add: clearError_def returning_def bindE_def setTextContent_None)

lemma checkField_show: "returning False (showError i msg d) = checkField i msg False d"
  by (cases "getElementById (i @ ''-error'') d") (simp_all add: checkField_def showError_eq showError_None)

lemma checkField_clear: "returning True (clearError i d) = checkField i msg True d"
  by (cases "getElementById (i @ ''-error'') d") (simp_all add: checkField_def clearError_eq clearError_None)

lemma report_get_other:
  "j \<noteq> i \<Longrightarrow> j \<noteq> i @ ''-error'' \<Longrightarrow> getElementById j (report i msg ok d) = getElementById j d"
  by (simp add: report_def getElementById_updateById)

lemma report_get_field:
  "getElementById i (report i msg ok d) =
     map_option (if ok then classRemove ''invalid'' else classAdd ''invalid'') (getElementById i d)"
  by (simp add: report_def getElementById_updateById)

lemma report_get_label:
  "getElementById (i @ ''-error'') (report i msg ok d) =
     map_option (\<lambda>e. e\<lparr>textContent := (if ok then [] else msg)\<rparr>) (getElementById (i @ ''-error'') d)"
  by (simp add: report_def getElementById_updateById)

lemma report_idem: "report i msg ok (report i msg ok d) = report i msg ok d"
proof -
  let ?c = "if ok then classRemove ''invalid'' else classAdd ''invalid''"
  let ?t = "\<lambda>e. e\<lparr>textContent := (if ok then [] else msg)\<rparr>"
  have c: "?c \<circ> ?c = ?c"
    by (auto simp: fun_eq_iff classAdd_def classRemove_def)
  have t: "?t \<circ> ?t = ?t"
    by (auto simp: fun_eq_iff)
  have ic: "idPreserving ?c" and it: "idPreserving ?t" by simp_all
  have "report i msg ok (report i msg ok d)
      = updateById i ?c (updateById i ?c (updateById (i @ ''-error'') ?t (updateById (i @ ''-error'') ?t d)))"
    unfolding report_def
    using updateById_commute [of "i @ ''-error''" i ?t ?c] ic it by simp
  also have "\<dots> = updateById i ?c (updateById (i @ ''-error'') ?t d)"
    using ic it by (simp only: updateById_twice c t)
  finally show ?thesis by (simp add: report_def)
qed

lemma valuePreserving_simps [simp]:
  "valuePreserving (classAdd c)" "valuePreserving (classRemove c)"
  "valuePreserving (\<lambda>e. e\<lparr>textContent := t\<rparr>)"
  by (simp_all add: valuePreserving_def classAdd_def classRemove_def)

lemma valuePreserving_idPreserving: "valuePreserving f \<Longrightarrow> idPreserving f"
  by (simp add: valuePreserving_def idPreserving_def)

lemma present_updateById [simp]:
  "idPreserving f \<Longrightarrow> present i (updateById j f d) = present i d"
  by (simp add: present_def getElementById_updateById)

lemma fieldValue_updateById [simp]:
  "valuePreserving f \<Longrightarrow> fieldValue i (updateById j f d) = fieldValue i d"
  by (auto simp: fieldValue_def getElementById_updateById valuePreserving_idPreserving
      valuePreserving_def split: option.splits)

lemma fieldChecked_updateById [simp]:
  "valuePreserving f \<Longrightarrow> fieldChecked i (updateById j f d) = fieldChecked i d"
  by (auto simp: fieldChecked_def getElementById_updateById valuePreserving_idPreserving
      valuePreserving_def split: option.splits)

lemma present_report [simp]: "present j (report i msg ok d) = present j d"
  by (simp add: report_def)

lemma present_reportText [simp]: "present j (reportText i msg ok d) = present j d"
  by (simp add: reportText_def)

lemma fieldValue_report [simp]: "fieldValue j (report i msg ok d) = fieldValue j d"
  by (simp add: report_def)

lemma fieldValue_reportText [simp]: "fieldValue j (reportText i msg ok d) = fieldValue j d"
  by (simp add: reportText_def)

lemma fieldChecked_report [simp]: "fieldChecked j (report i msg ok d) = fieldChecked j d"
  by (simp add: report_def)

lemma fieldChecked_reportText [simp]: "fieldChecked j (reportText i msg ok d) = fieldChecked j d"
  by (simp add: reportText_def)

lemma reportText_idem: "reportText i msg ok (reportText i msg ok d) = reportText i msg ok d"
proof -
  let ?t = "\<lambda>e. e\<lparr>textContent := (if ok then [] else msg)\<rparr>"
  have t: "?t \<circ> ?t = ?t" by (auto simp: fun_eq_iff)
  have "idPreserving ?t" by simp
  then have "updateById (i @ ''-error'') ?t (updateById (i @ ''-error'') ?t d)
             = updateById (i @ ''-error'') (?t \<circ> ?t) d"
    by (rule updateById_twice)
  then show ?thesis unfolding reportText_def t .
qed

lemma checkField_eq:
  "checkField i msg ok d = (if present (i @ ''-error'') d then Inr (ok, report i msg ok d) else Inl TypeError)"
  by (auto simp: checkField_def present_def split: option.splits)

lemma deref_bind:
  "bindE (deref i d) f = (case getElementById i d of None \<Rightarrow> Inl TypeError | Some e \<Rightarrow> f e)"
  by (simp add: deref_def bindE_def split: option.splits)

lemma validateName_nf:
  "validateName d = (if present ''name'' d \<and> present ''name-error'' d
                     then Inr (nameOk d, report ''name'' nameMessage (nameOk d) d) else Inl TypeError)"
  using checkField_eq [of "''name''"]
  by (auto simp: validateName_def deref_bind nameOk_def fieldValue_def present_def Let_def
      checkField_show checkField_clear [where msg = nameMessage] split: option.splits)

lemma validateEmail_nf:
  "validateEmail d = (if present ''email'' d \<and> present ''email-error'' d
                     then Inr (emailOk d, report ''email'' emailMessage (emailOk d) d) else Inl TypeError)"
  using checkField_eq [of "''email''"]
  by (auto simp: validateEmail_def deref_bind emailOk_def fieldValue_def present_def Let_def
      checkField_show checkField_clear [where msg = emailMessage] split: option.splits)

lemma validatePassword_nf:
  "validatePassword d = (if present ''password'' d \<and> present ''password-error'' d
                     then Inr (passwordOk d, report ''password'' passwordMessage (passwordOk d) d) else Inl TypeError)"
  using checkField_eq [of "''password''"]
  by (auto simp: validatePassword_def deref_bind passwordOk_def fieldValue_def present_def Let_def
      checkField_show checkField_clear [where msg = passwordMessage] split: option.splits)

lemma validateConfirm_nf:
  "validateConfirm d = (if present ''confirm-password'' d \<and> present ''password'' d \<and> present ''confirm-password-error'' d
                     then Inr (confirmOk d, report ''confirm-password'' confirmMessage (confirmOk d) d) else Inl TypeError)"
  using checkField_eq [of "''confirm-password''"]
  by (auto simp: validateConfirm_def deref_bind confirmOk_def fieldValue_def present_def Let_def
      checkField_show checkField_clear [where msg = confirmMessage] split: option.splits)

lemma validateAge_nf:
  "validateAge d = (if present ''age'' d \<and> present ''age-error'' d
                     then Inr (ageOk d, report ''age'' ageMessage (ageOk d) d) else Inl TypeError)"
  using checkField_eq [of "''age''"]
  by (auto simp: validateAge_def deref_bind ageOk_def fieldValue_def present_def Let_def
      checkField_show checkField_clear [where msg = ageMessage] split: option.splits)

lemma validateWebsite_nf:
  "validateWebsite d = (if present ''website'' d \<and> present ''website-error'' d
                     then Inr (websiteOk d, report ''website'' websiteMessage (websiteOk d) d) else Inl TypeError)"
  using checkField_eq [of "''website''"]
  by (auto simp: validateWebsite_def deref_bind websiteOk_def fieldValue_def present_def Let_def
      checkField_show checkField_clear [where msg = websiteMessage] split: option.splits)

lemma validateTerms_nf:
  "validateTerms d = (if present ''terms'' d \<and> present ''terms-error'' d
                     then Inr (termsOk d, reportText ''terms'' termsMessage (termsOk d) d) else Inl TypeError)"
  by (auto simp: validateTerms_def deref_bind termsOk_def fieldChecked_def present_def
      returning_def bindE_def setTextContent_def deref_def reportText_def split: option.splits)

lemma wiredD:
  assumes "wired d"
  shows "present ''name'' d" "present ''name-error'' d" "present ''email'' d" "present ''email-error'' d"
    "present ''password'' d" "present ''password-error'' d"
    "present ''confirm-password'' d" "present ''confirm-password-error'' d"
    "present ''age'' d" "present ''age-error'' d" "present ''website'' d" "present ''website-error'' d"
    "present ''terms'' d" "present ''terms-error'' d"
  using assms by (simp_all add: wired_def requiredIds_def)

lemmas validator_nfs = validateName_nf validateEmail_nf validatePassword_nf validateConfirm_nf
  validateAge_nf validateWebsite_nf validateTerms_nf

lemma errorText_report:
  "present (i @ ''-error'') d \<Longrightarrow> errorText i (report i msg ok d) = Some (if ok then [] else msg)"
  by (auto simp: errorText_def report_get_label present_def)

lemma errorText_reportText:
  "present (i @ ''-error'') d \<Longrightarrow> errorText i (reportText i msg ok d) = Some (if ok then [] else msg)"
  by (auto simp: errorText_def reportText_def getElementById_updateById present_def)

lemma markedInvalid_report:
  "present i d \<Longrightarrow> markedInvalid i (report i msg ok d) = (\<not> ok)"
  by (auto simp: markedInvalid_def report_get_field present_def classAdd_def classRemove_def)

lemma ok_report [simp]:
  "nameOk (report i msg ok d) = nameOk d" "emailOk (report i msg ok d) = emailOk d"
  "passwordOk (report i msg ok d) = passwordOk d" "confirmOk (report i msg ok d) = confirmOk d"
  "ageOk (report i msg ok d) = ageOk d" "websiteOk (report i msg ok d) = websiteOk d"
  "termsOk (report i msg ok d) = termsOk d"
  by (simp_all add: nameOk_def emailOk_def passwordOk_def confirmOk_def ageOk_def websiteOk_def
      termsOk_def)

lemma ok_reportText [simp]:
  "nameOk (reportText i msg ok d) = nameOk d" "emailOk (reportText i msg ok d) = emailOk d"
  "passwordOk (reportText i msg ok d) = passwordOk d" "confirmOk (reportText i msg ok d) = confirmOk d"
  "ageOk (reportText i msg ok d) = ageOk d" "websiteOk (reportText i msg ok d) = websiteOk d"
  "termsOk (reportText i msg ok d) = termsOk d"
  by (simp_all add: nameOk_def emailOk_def passwordOk_def confirmOk_def ageOk_def websiteOk_def
      termsOk_def)

lemma empty_password_rejected: "\<not> test passwordRegex []"
  by code_simp


section \<open>Frames of the validators and of the submit handler\<close>

lemma errorText_report_other [simp]:
  "i \<noteq> j \<Longrightarrow> i @ ''-error'' \<noteq> j \<Longrightarrow> errorText i (report j msg ok d) = errorText i d"
  by (simp add: errorText_def report_get_other)

lemma errorText_reportText_other [simp]:
  "i \<noteq> j \<Longrightarrow> errorText i (reportText j msg ok d) = errorText i d"
  by (simp add: errorText_def reportText_def getElementById_updateById)

lemma markedInvalid_report_other [simp]:
  "i \<noteq> j \<Longrightarrow> i \<noteq> j @ ''-error'' \<Longrightarrow> markedInvalid i (report j msg ok d) = markedInvalid i d"
  by (simp add: markedInvalid_def report_get_other)

lemma markedInvalid_reportText_other [simp]:
  "i \<noteq> j @ ''-error'' \<Longrightarrow> markedInvalid i (reportText j msg ok d) = markedInvalid i d"
  by (simp add: markedInvalid_def reportText_def getElementById_updateById)

lemma getElementById_reportText_other:
  "i \<noteq> j @ ''-error'' \<Longrightarrow> getElementById i (reportText j msg ok d) = getElementById i d"
  by (simp add: reportText_def getElementById_updateById)

lemma messages_nonempty:
  "nameMessage \<noteq> []" "emailMessage \<noteq> []" "passwordMessage \<noteq> []" "confirmMessage \<noteq> []"
  "ageMessage \<noteq> []" "websiteMessage \<noteq> []" "termsMessage \<noteq> []"
  by (simp_all add: nameMessage_def emailMessage_def passwordMessage_def confirmMessage_def
      ageMessage_def websiteMessage_def termsMessage_def js_def)

lemma returned_validators:
  assumes "wired d"
  shows "returned (validateName d) = Some (nameOk d)" "returned (validateEmail d) = Some (emailOk d)"
    "returned (validatePassword d) = Some (passwordOk d)" "returned (validateConfirm d) = Some (confirmOk d)"
    "returned (validateAge d) = Some (ageOk d)" "returned (validateWebsite d) = Some (websiteOk d)"
    "returned (validateTerms d) = Some (termsOk d)"
  using wiredD [OF assms] by (simp_all add: validator_nfs returned_def)

lemma returned_validateAll:
  assumes "wired d"
  shows "returned (validateAll d)
         = Some (nameOk d \<and> emailOk d \<and> passwordOk d \<and> confirmOk d \<and> ageOk d \<and> websiteOk d \<and> termsOk d)"
  using wiredD [OF assms]
  by (simp add: validateAll_def validators_def bindE_def validator_nfs returned_def)

lemma present_userInput [simp]: "present j (userInput i v c d) = present j d"
  by (simp add: userInput_def idPreserving_def)

lemma wired_userInput [simp]: "wired (userInput i v c d) = wired d"
  by (simp add: wired_def)

lemma fieldValue_userInput:
  "fieldValue j (userInput i v c d) = (if j = i \<and> present i d then v else fieldValue j d)"
  by (auto simp: fieldValue_def userInput_def getElementById_updateById idPreserving_def present_def
      split: option.splits)

lemma fieldChecked_userInput:
  "fieldChecked j (userInput i v c d) = (if j = i \<and> present i d then c else fieldChecked j d)"
  by (auto simp: fieldChecked_def userInput_def getElementById_updateById idPreserving_def present_def
      split: option.splits)

lemmas ok_defs = nameOk_def emailOk_def passwordOk_def confirmOk_def ageOk_def websiteOk_def termsOk_def

lemma flip_each:
  assumes w: "wired d" and ok: "returned (validateAll d) = Some True"
  shows "list_all (\<lambda>(i, msg, f). returned (f (userInput i v c d)) = Some False \<longrightarrow> flipEffect d i v c)
           allFields"
proof -
  have w': "wired (userInput i v c d)" for i using w by simp
  note p = wiredD [OF w]
  note r = returned_validators [OF w] returned_validators [OF w'] returned_validateAll [OF w']
  note u = ok_defs fieldValue_userInput fieldChecked_userInput
  have all: "nameOk d" "emailOk d" "passwordOk d" "confirmOk d" "ageOk d" "websiteOk d" "termsOk d"
    using ok by (simp_all add: returned_validateAll [OF w])
  have 1: "\<not> nameOk (userInput ''name'' v c d) \<Longrightarrow> flipEffect d ''name'' v c"
    using all p by (simp add: flipEffect_def r allFields_def textFields_def) (simp add: u)
  have 2: "\<not> emailOk (userInput ''email'' v c d) \<Longrightarrow> flipEffect d ''email'' v c"
    using all p by (simp add: flipEffect_def r allFields_def textFields_def) (simp add: u)
  have 3: "\<not> passwordOk (userInput ''password'' v c d) \<Longrightarrow> flipEffect d ''password'' v c"
    using all p by (simp add: flipEffect_def r allFields_def textFields_def) (auto simp add: u)
  have 4: "\<not> confirmOk (userInput ''confirm-password'' v c d) \<Longrightarrow> flipEffect d ''confirm-password'' v c"
    using all p by (simp add: flipEffect_def r allFields_def textFields_def) (simp add: u)
  have 5: "\<not> ageOk (userInput ''age'' v c d) \<Longrightarrow> flipEffect d ''age'' v c"
    using all p by (simp add: flipEffect_def r allFields_def textFields_def) (simp add: u)
  have 6: "\<not> websiteOk (userInput ''website'' v c d) \<Longrightarrow> flipEffect d ''website'' v c"
    using all p by (simp add: flipEffect_def r allFields_def textFields_def) (simp add: u)
  have 7: "\<not> termsOk (userInput ''terms'' v c d) \<Longrightarrow> flipEffect d ''terms'' v c"
    using all p by (simp add: flipEffect_def r allFields_def textFields_def) (simp add: u)
  show ?thesis
    using 1 2 3 4 5 6 7 by (simp add: allFields_def textFields_def r)
qed


















lemma elements_focus [simp]: "elements (focus i pg) = elements pg"
  by (simp add: focus_def)


lemma resetControl_keeps [simp]:
  "elemId (resetControl e) = elemId e" "textContent (resetControl e) = textContent e"
  "classList (resetControl e) = classList e" "formOwner (resetControl e) = formOwner e"
  by (simp_all add: resetControl_def split: reset.splits)





section \<open>What the patterns accept\<close>

lemma consumesD: "consumes r A \<Longrightarrow> t \<in> set (rmatch n r s) \<longleftrightarrow> (\<exists>u \<in> A. s = u @ t)"
  by (simp add: consumes_def)

lemma consumes_Eps: "consumes Eps {[]}"
  by (auto simp: consumes_def)

lemma consumes_Cls: "consumes (Cls p) (unitOf p)"
  by (auto simp: consumes_def unitOf_def split: list.splits)

lemma consumes_Chr: "consumes (Chr c) {[c]}"
  by (auto simp: consumes_def Chr_def split: list.splits)

lemma conc_iff: "w \<in> conc A B \<longleftrightarrow> (\<exists>u v. u \<in> A \<and> v \<in> B \<and> w = u @ v)"
  by (auto simp: conc_def)

lemma chain_iff:
  assumes "\<And>m. P m \<longleftrightarrow> (\<exists>u. u \<in> A \<and> s = u @ m)" and "\<And>m. Q m \<longleftrightarrow> (\<exists>v. v \<in> B \<and> m = v @ t)"
  shows "(\<exists>m. P m \<and> Q m) \<longleftrightarrow> (\<exists>w. w \<in> conc A B \<and> s = w @ t)"
proof
  assume "\<exists>m. P m \<and> Q m"
  then obtain m u v where "u \<in> A" "s = u @ m" "v \<in> B" "m = v @ t"
    using assms by blast
  then have "u @ v \<in> conc A B" "s = (u @ v) @ t" by (auto simp: conc_iff)
  then show "\<exists>w. w \<in> conc A B \<and> s = w @ t" by blast
next
  assume "\<exists>w. w \<in> conc A B \<and> s = w @ t"
  then obtain u v where uv: "u \<in> A" "v \<in> B" "s = (u @ v) @ t" by (auto simp: conc_iff)
  then have "P (v @ t)" "Q (v @ t)" using assms by auto
  then show "\<exists>m. P m \<and> Q m" by blast
qed

lemma consumes_Seq:
  assumes a: "consumes a A" and b: "consumes b B"
  shows "consumes (Seq a b) (conc A B)"
  unfolding consumes_def
proof (intro allI)
  fix n s t
  have "t \<in> set (rmatch n (Seq a b) s) \<longleftrightarrow> (\<exists>m. m \<in> set (rmatch n a s) \<and> t \<in> set (rmatch n b m))"
    by auto
  also have "\<dots> \<longleftrightarrow> (\<exists>w. w \<in> conc A B \<and> s = w @ t)"
    by (rule chain_iff) (auto simp: consumesD [OF a] consumesD [OF b])
  finally show "t \<in> set (rmatch n (Seq a b) s) \<longleftrightarrow> (\<exists>w \<in> conc A B. s = w @ t)" by blast
qed

lemma consumes_Alt:
  assumes "consumes a A" and "consumes b B"
  shows "consumes (Alt a b) (A \<union> B)"
  using assms by (auto simp: consumes_def)

lemma consumes_Opt: "consumes a A \<Longrightarrow> consumes (Opt a) (insert [] A)"
  unfolding Opt_def using consumes_Alt [OF _ consumes_Eps, of a A] by simp

lemma mem_Cons_concat_if:
  "t \<in> set (s # concat (map (\<lambda>m. if c m then f m else []) ms))
   \<longleftrightarrow> t = s \<or> (\<exists>m \<in> set ms. c m \<and> t \<in> set (f m))"
  by (induction ms) auto

lemma rmatch_star:
  "t \<in> set (rmatch n (Rep 0 a) s) \<longleftrightarrow>
     t = s \<or> (\<exists>m \<in> set (rmatch n a s). length m < length s \<and> t \<in> set (rmatch n (Rep 0 a) m))"
  by (subst rmatch.simps(7)) (rule mem_Cons_concat_if)

declare rmatch.simps(7) [simp del]

lemma star_step:
  assumes a: "consumes a A" and ne: "[] \<notin> A"
  shows "t \<in> set (rmatch n (Rep 0 a) s) \<longleftrightarrow> (\<exists>w \<in> repeats 0 A. s = w @ t)"
proof (induction "length s" arbitrary: s rule: less_induct)
  case less
  note unfold = rmatch_star [of t n a s]
  show ?case
  proof
    assume "t \<in> set (rmatch n (Rep 0 a) s)"
    with unfold consider "t = s"
      | m where "m \<in> set (rmatch n a s)" "length m < length s" "t \<in> set (rmatch n (Rep 0 a) m)"
      by blast
    then show "\<exists>w \<in> repeats 0 A. s = w @ t"
    proof cases
      case 1
      have "[] \<in> repeats 0 A" unfolding repeats_def by (rule CollectI, rule exI [of _ "[]"]) simp
      with 1 show ?thesis by auto
    next
      case 2
      from 2(1) a obtain u where u: "u \<in> A" "s = u @ m" by (auto simp: consumesD)
      from less [OF 2(2)] 2(3) obtain w where w: "w \<in> repeats 0 A" "m = w @ t" by auto
      from w(1) obtain us where us: "w = concat us" "set us \<subseteq> A" by (auto simp: repeats_def)
      have "u @ w = concat (u # us)" "set (u # us) \<subseteq> A" using us u by simp_all
      then have "u @ w \<in> repeats 0 A" unfolding repeats_def by blast
      with u w show ?thesis by auto
    qed
  next
    assume "\<exists>w \<in> repeats 0 A. s = w @ t"
    then obtain us where us: "s = concat us @ t" "set us \<subseteq> A" by (auto simp: repeats_def)
    show "t \<in> set (rmatch n (Rep 0 a) s)"
    proof (cases us)
      case Nil
      with us unfold show ?thesis by simp
    next
      case (Cons u vs)
      let ?m = "concat vs @ t"
      from Cons us ne have u: "u \<in> A" "u \<noteq> []" "s = u @ ?m" by auto
      then have len: "length ?m < length s" by simp
      from u a have m: "?m \<in> set (rmatch n a s)" by (auto simp: consumesD)
      have "concat vs \<in> repeats 0 A" using us Cons unfolding repeats_def by auto
      with less [OF len] have "t \<in> set (rmatch n (Rep 0 a) ?m)" by blast
      with m len unfold show ?thesis by blast
    qed
  qed
qed

lemma repeats_Suc: "repeats (Suc k) A = conc A (repeats k A)"
proof (intro set_eqI iffI)
  fix w assume "w \<in> repeats (Suc k) A"
  then obtain us where us: "w = concat us" "Suc k \<le> length us" "set us \<subseteq> A"
    by (auto simp: repeats_def)
  then obtain u vs where "us = u # vs" by (cases us) auto
  with us show "w \<in> conc A (repeats k A)"
    unfolding conc_def repeats_def by auto
next
  fix w assume "w \<in> conc A (repeats k A)"
  then obtain u vs where "w = u @ concat vs" "u \<in> A" "k \<le> length vs" "set vs \<subseteq> A"
    by (auto simp: conc_def repeats_def)
  then have "w = concat (u # vs)" "Suc k \<le> length (u # vs)" "set (u # vs) \<subseteq> A" by simp_all
  then show "w \<in> repeats (Suc k) A" unfolding repeats_def by blast
qed

lemma consumes_Rep:
  assumes a: "consumes a A" and ne: "[] \<notin> A"
  shows "consumes (Rep k a) (repeats k A)"
proof (induction k)
  case 0
  show ?case unfolding consumes_def using star_step [OF a ne] by blast
next
  case (Suc k)
  have "consumes (Rep (Suc k) a) (conc A (repeats k A))"
    unfolding consumes_def
  proof (intro allI)
    fix n s t
    have "t \<in> set (rmatch n (Rep (Suc k) a) s) \<longleftrightarrow> (\<exists>m. m \<in> set (rmatch n a s) \<and> t \<in> set (rmatch n (Rep k a) m))"
      by auto
    also have "\<dots> \<longleftrightarrow> (\<exists>w. w \<in> conc A (repeats k A) \<and> s = w @ t)"
      by (rule chain_iff) (auto simp: consumesD [OF a] consumesD [OF Suc])
    finally show "t \<in> set (rmatch n (Rep (Suc k) a) s) \<longleftrightarrow> (\<exists>w \<in> conc A (repeats k A). s = w @ t)"
      by blast
  qed
  then show ?case by (simp add: repeats_Suc)
qed

lemma unitOf_iff: "u \<in> unitOf p \<longleftrightarrow> (\<exists>c. u = [c] \<and> p c)"
  by (auto simp: unitOf_def)

lemma concat_units:
  "\<forall>u \<in> set us. \<exists>c. u = [c] \<and> p c \<Longrightarrow> length (concat us) = length us \<and> list_all p (concat us)"
proof (induction us)
  case Nil
  show ?case by simp
next
  case (Cons u us)
  from Cons.prems have "\<exists>c. u = [c] \<and> p c" by simp
  then obtain c where c: "u = [c]" "p c" by blast
  from Cons.prems have "\<forall>v \<in> set us. \<exists>c. v = [c] \<and> p c" by simp
  from Cons.IH [OF this] have "length (concat us) = length us" "list_all p (concat us)" by simp_all
  then show ?case unfolding c(1) using c(2) by simp
qed

lemma concat_singletons: "concat (map (\<lambda>c. [c]) w) = w"
  by (induction w) simp_all

lemma repeats_single: "repeats k (unitOf p) = {w. k \<le> length w \<and> list_all p w}"
proof (intro set_eqI iffI)
  fix w assume "w \<in> repeats k (unitOf p)"
  then obtain us where us: "w = concat us" "k \<le> length us" "set us \<subseteq> unitOf p"
    unfolding repeats_def by blast
  from us(3) have "\<forall>u \<in> set us. \<exists>c. u = [c] \<and> p c"
    unfolding unitOf_iff [symmetric] by blast
  from concat_units [OF this] us(1,2) show "w \<in> {w. k \<le> length w \<and> list_all p w}" by simp
next
  fix w assume "w \<in> {w. k \<le> length w \<and> list_all p w}"
  then have w: "k \<le> length w" "list_all p w" by simp_all
  have 2: "set (map (\<lambda>c. [c]) w) \<subseteq> unitOf p"
  proof
    fix u assume "u \<in> set (map (\<lambda>c. [c]) w)"
    then obtain c where "c \<in> set w" "u = [c]" by auto
    with w(2) show "u \<in> unitOf p" unfolding unitOf_iff list_all_iff by blast
  qed
  have 3: "k \<le> length (map (\<lambda>c. [c]) w)" using w(1) by simp
  from 2 3 have "concat (map (\<lambda>c. [c]) w) \<in> repeats k (unitOf p)"
    unfolding repeats_def by blast
  then show "w \<in> repeats k (unitOf p)" by (simp only: concat_singletons)
qed

lemma consumes_Rep_Cls: "consumes (Rep k (Cls p)) {w. k \<le> length w \<and> list_all p w}"
proof -
  have "[] \<notin> unitOf p" by (simp add: unitOf_iff)
  from consumes_Rep [OF consumes_Cls this, of k] show ?thesis
    by (simp only: repeats_single)
qed

lemma accepts_Eos: "accepts Eos {[]}"
  by (simp add: accepts_def)

lemma accepts_Seq:
  assumes a: "consumes a A" and b: "accepts b B"
  shows "accepts (Seq a b) (conc A B)"
  unfolding accepts_def
proof (intro allI)
  fix n s
  have "rmatch n (Seq a b) s \<noteq> [] \<longleftrightarrow> (\<exists>m. m \<in> set (rmatch n a s) \<and> rmatch n b m \<noteq> [])"
    by auto
  also have "\<dots> \<longleftrightarrow> (\<exists>m. (\<exists>u. u \<in> A \<and> s = u @ m) \<and> m \<in> B)"
    using b by (auto simp: consumesD [OF a] accepts_def)
  also have "\<dots> \<longleftrightarrow> s \<in> conc A B"
    unfolding conc_iff by blast
  finally show "rmatch n (Seq a b) s \<noteq> [] \<longleftrightarrow> s \<in> conc A B" .
qed

lemma test_Bos:
  assumes "accepts r A"
  shows "test (Seq Bos r) s \<longleftrightarrow> s \<in> A"
proof -
  have acc: "rmatch n r t \<noteq> [] \<longleftrightarrow> t \<in> A" for n t
    using assms unfolding accepts_def by blast
  have zero: "rmatch (length s) (Seq Bos r) s \<noteq> [] \<longleftrightarrow> s \<in> A"
    using acc [of "length s" s] by simp
  have pos: "rmatch (length s) (Seq Bos r) (drop i s) = []" if "0 < i" "i \<le> length s" for i
    using that by auto
  show ?thesis
  proof
    assume "test (Seq Bos r) s"
    then have "\<exists>i \<in> set [0 ..< Suc (length s)]. rmatch (length s) (Seq Bos r) (drop i s) \<noteq> []"
      unfolding test_def list_ex_iff .
    then obtain i where mem: "i \<in> set [0 ..< Suc (length s)]"
      and "rmatch (length s) (Seq Bos r) (drop i s) \<noteq> []"
      by (rule bexE)
    from mem have "i \<le> length s" by auto
    note i = this \<open>rmatch (length s) (Seq Bos r) (drop i s) \<noteq> []\<close>
    with pos have "i = 0" by (cases "i = 0") simp_all
    with i zero show "s \<in> A" by simp
  next
    assume "s \<in> A"
    with zero have "rmatch (length s) (Seq Bos r) (drop 0 s) \<noteq> []" by simp
    moreover have "0 \<in> set [0 ..< Suc (length s)]" by simp
    ultimately show "test (Seq Bos r) s"
      unfolding test_def list_ex_iff by (rule bexI)
  qed
qed

lemma consumes_words: "consumes (Rep k (Cls p)) (wordsOf k p)"
  unfolding wordsOf_def by (rule consumes_Rep_Cls)

lemma Seqs_simps:
  "Seqs (a # b # rs) = Seq a (Seqs (b # rs))"
  by simp

lemma email_language:
  "test emailRegex v \<longleftrightarrow>
     v \<in> conc (wordsOf 1 notSpaceAt) (conc {[0x40]} (conc (wordsOf 1 notSpaceAt)
           (conc {[0x2E]} (conc (wordsOf 2 notSpaceAt) {[]}))))"
  unfolding emailRegex_def Seqs_simps Seqs.simps(2)
  by (intro test_Bos accepts_Seq accepts_Eos consumes_words consumes_Chr)

lemma conc_single: "w \<in> conc {[c]} B \<longleftrightarrow> (\<exists>v. v \<in> B \<and> w = c # v)"
  by (auto simp: conc_iff)

lemma conc_Nil: "conc A {[]} = A"
  by (auto simp: conc_def)

lemma wordsOf_iff: "w \<in> wordsOf k p \<longleftrightarrow> k \<le> length w \<and> list_all p w"
  by (simp add: wordsOf_def)

lemma test_emailRegex: "test emailRegex v \<longleftrightarrow> emailParts v"
proof -
  have "v \<in> conc (wordsOf 1 notSpaceAt) (conc {[0x40]} (conc (wordsOf 1 notSpaceAt)
           (conc {[0x2E]} (wordsOf 2 notSpaceAt)))) \<longleftrightarrow> emailParts v"
    (is "?L \<longleftrightarrow> ?R")
  proof
    assume ?L
    then obtain l r where l: "l \<in> wordsOf 1 notSpaceAt" "v = l @ r"
      and "r \<in> conc {[0x40]} (conc (wordsOf 1 notSpaceAt) (conc {[0x2E]} (wordsOf 2 notSpaceAt)))"
      unfolding conc_iff [of v] by blast
    then obtain r' where r: "r = 0x40 # r'"
      and "r' \<in> conc (wordsOf 1 notSpaceAt) (conc {[0x2E]} (wordsOf 2 notSpaceAt))"
      unfolding conc_single by blast
    then obtain d r'' where d: "d \<in> wordsOf 1 notSpaceAt" "r' = d @ r''"
      and "r'' \<in> conc {[0x2E]} (wordsOf 2 notSpaceAt)"
      unfolding conc_iff [of r'] by blast
    then obtain t where t: "r'' = 0x2E # t" "t \<in> wordsOf 2 notSpaceAt"
      unfolding conc_single by blast
    have "v = l @ 0x40 # d @ 0x2E # t" by (simp add: l r d t)
    moreover have "l \<noteq> []" "d \<noteq> []" "2 \<le> length t" "list_all notSpaceAt l" "list_all notSpaceAt d"
      "list_all notSpaceAt t"
      using l(1) d(1) t(2) by (auto simp: wordsOf_iff)
    ultimately show ?R unfolding emailParts_def by blast
  next
    assume ?R
    then obtain l d t where p: "v = l @ 0x40 # d @ 0x2E # t" "l \<noteq> []" "d \<noteq> []" "2 \<le> length t"
      "list_all notSpaceAt l" "list_all notSpaceAt d" "list_all notSpaceAt t"
      unfolding emailParts_def by blast
    have l: "l \<in> wordsOf 1 notSpaceAt" and d: "d \<in> wordsOf 1 notSpaceAt" and t: "t \<in> wordsOf 2 notSpaceAt"
      using p by (simp_all add: wordsOf_iff Suc_le_eq)
    from t have "0x2E # t \<in> conc {[0x2E]} (wordsOf 2 notSpaceAt)"
      unfolding conc_single by blast
    with d have "d @ 0x2E # t \<in> conc (wordsOf 1 notSpaceAt) (conc {[0x2E]} (wordsOf 2 notSpaceAt))"
      unfolding conc_iff [of "d @ 0x2E # t"] by blast
    then have "0x40 # d @ 0x2E # t
        \<in> conc {[0x40]} (conc (wordsOf 1 notSpaceAt) (conc {[0x2E]} (wordsOf 2 notSpaceAt)))"
      unfolding conc_single by blast
    with l have "l @ 0x40 # d @ 0x2E # t
        \<in> conc (wordsOf 1 notSpaceAt) (conc {[0x40]} (conc (wordsOf 1 notSpaceAt)
             (conc {[0x2E]} (wordsOf 2 notSpaceAt))))"
      unfolding conc_iff [of "l @ 0x40 # d @ 0x2E # t"] by blast
    then show ?L by (simp only: p(1))
  qed
  then show ?thesis by (simp only: email_language conc_Nil)
qed

lemma at_dot_not_space:
  "\<not> isStrWhiteSpaceChar 0x40" "\<not> isStrWhiteSpaceChar 0x2E" "(0x2E :: jschar) \<noteq> 0x40"
  by (simp_all add: isStrWhiteSpaceChar_def isWhiteSpace_def isLineTerminator_def)

lemma list_all_notSpaceAt:
  "list_all notSpaceAt w \<longleftrightarrow> \<not> list_ex isStrWhiteSpaceChar w \<and> 0x40 \<notin> set w"
  by (induction w) (auto simp: notSpaceAt_def)

lemma split_at_first:
  assumes "a \<in> set v"
  shows "v = takeWhile (\<lambda>c. c \<noteq> a) v @ a # tl (dropWhile (\<lambda>c. c \<noteq> a) v)"
proof -
  from assms have "dropWhile (\<lambda>c. c \<noteq> a) v \<noteq> []" by (simp add: dropWhile_eq_Nil_conv)
  moreover from this have "hd (dropWhile (\<lambda>c. c \<noteq> a) v) = a"
    using hd_dropWhile [of "\<lambda>c. c \<noteq> a" v] by simp
  ultimately have "dropWhile (\<lambda>c. c \<noteq> a) v = a # tl (dropWhile (\<lambda>c. c \<noteq> a) v)"
    by (cases "dropWhile (\<lambda>c. c \<noteq> a) v") simp_all
  with takeWhile_dropWhile_id [of "\<lambda>c. c \<noteq> a" v] show ?thesis by simp
qed

lemma first_split:
  assumes "a \<notin> set l"
  shows "takeWhile (\<lambda>c. c \<noteq> a) (l @ a # r) = l" "tl (dropWhile (\<lambda>c. c \<noteq> a) (l @ a # r)) = r"
  using assms by (induction l) auto

lemma emailParts_imp_shape:
  assumes "emailParts v"
  shows "emailShape v"
proof -
  from assms obtain l d t where p: "v = l @ 0x40 # d @ 0x2E # t" "l \<noteq> []" "d \<noteq> []" "2 \<le> length t"
    "list_all notSpaceAt l" "list_all notSpaceAt d" "list_all notSpaceAt t"
    unfolding emailParts_def by blast
  from p(5-7) have ns: "\<not> list_ex isStrWhiteSpaceChar l" "\<not> list_ex isStrWhiteSpaceChar d"
    "\<not> list_ex isStrWhiteSpaceChar t" and na: "0x40 \<notin> set l" "0x40 \<notin> set d" "0x40 \<notin> set t"
    by (simp_all add: list_all_notSpaceAt)
  have 1: "\<not> list_ex isStrWhiteSpaceChar v"
    using ns at_dot_not_space by (simp add: p(1))
  have 2: "count_list v 0x40 = 1"
    using na at_dot_not_space(3) by (simp add: p(1))
  have 3: "takeWhile (\<lambda>c. c \<noteq> 0x40) v = l" "tl (dropWhile (\<lambda>c. c \<noteq> 0x40) v) = d @ 0x2E # t"
    unfolding p(1) using na(1) by (rule first_split)+
  have "length d \<in> set [1 ..< length (d @ 0x2E # t) - 2]" "(d @ 0x2E # t) ! length d = 0x2E"
    using p(3,4) by (simp_all add: Suc_le_eq)
  then have 4: "list_ex (\<lambda>i. (d @ 0x2E # t) ! i = 0x2E) [1 ..< length (d @ 0x2E # t) - 2]"
    unfolding list_ex_iff by blast
  show ?thesis
    unfolding emailShape_def Let_def 3 using 1 2 4 p(2) by blast
qed

lemma emailShape_imp_parts:
  assumes "emailShape v"
  shows "emailParts v"
proof -
  define l where "l = takeWhile (\<lambda>c. c \<noteq> 0x40) v"
  define dom where "dom = tl (dropWhile (\<lambda>c. c \<noteq> 0x40) v)"
  from assms have ws: "\<not> list_ex isStrWhiteSpaceChar v" and cnt: "count_list v 0x40 = 1"
    and lne: "l \<noteq> []" and ex: "list_ex (\<lambda>i. dom ! i = 0x2E) [1 ..< length dom - 2]"
    unfolding emailShape_def Let_def l_def dom_def by blast+
  from cnt have "0x40 \<in> set v" using count_list_0_iff [of v "0x40"] by auto
  from split_at_first [OF this] have v: "v = l @ 0x40 # dom" by (simp add: l_def dom_def)
  have nl: "0x40 \<notin> set l"
    unfolding l_def using set_takeWhileD [of "0x40" "\<lambda>c. c \<noteq> 0x40" v] by blast
  from cnt v nl have "count_list dom 0x40 = 0" by simp
  then have nd: "0x40 \<notin> set dom" by (simp add: count_list_0_iff)
  from ex obtain i where i: "1 \<le> i" "i < length dom - 2" "dom ! i = 0x2E"
    unfolding list_ex_iff by auto
  define d where "d = take i dom"
  define t where "t = drop (Suc i) dom"
  from i have "i < length dom" by simp
  from id_take_nth_drop [OF this] i(3) have dom: "dom = d @ 0x2E # t" by (simp add: d_def t_def)
  have dne: "d \<noteq> []" using i by (auto simp: d_def)
  have tl: "2 \<le> length t" using i by (simp add: t_def)
  from ws have wsl: "\<not> list_ex isStrWhiteSpaceChar l" "\<not> list_ex isStrWhiteSpaceChar d"
    "\<not> list_ex isStrWhiteSpaceChar t"
    by (simp_all add: v dom)
  from nd have "0x40 \<notin> set d" "0x40 \<notin> set t" by (simp_all add: dom)
  with nl wsl have "list_all notSpaceAt l" "list_all notSpaceAt d" "list_all notSpaceAt t"
    by (simp_all add: list_all_notSpaceAt)
  moreover have "v = l @ 0x40 # d @ 0x2E # t" using v dom by simp
  ultimately show ?thesis unfolding emailParts_def using lne dne tl by blast
qed

lemma test_emailRegex_shape: "test emailRegex v \<longleftrightarrow> emailShape v"
  using emailParts_imp_shape emailShape_imp_parts test_emailRegex by blast

lemma last_dot:
  assumes "a \<in> set w"
  shows "w ! (length w - length (takeWhile (\<lambda>c. c \<noteq> a) (rev w)) - 1) = a"
    and "length (takeWhile (\<lambda>c. c \<noteq> a) (rev w)) < length w"
proof -
  let ?t = "takeWhile (\<lambda>c. c \<noteq> a) (rev w)"
  let ?r = "tl (dropWhile (\<lambda>c. c \<noteq> a) (rev w))"
  from assms have "a \<in> set (rev w)" by simp
  from split_at_first [OF this] have "rev w = ?t @ a # ?r" .
  then have "rev (rev w) = rev (?t @ a # ?r)" by (rule arg_cong)
  then have w: "w = rev ?r @ a # rev ?t" by simp
  have len: "length w = length ?r + 1 + length ?t"
    using arg_cong [OF w, of length] by simp
  then show "length ?t < length w" by simp
  have "w ! length (rev ?r) = a" using nth_append_length [of "rev ?r" a "rev ?t"] w by simp
  moreover have "length w - length ?t - 1 = length (rev ?r)" using len by simp
  ultimately show "w ! (length w - length ?t - 1) = a" by simp
qed

lemma specEmailShape_imp_shape:
  assumes "specEmailShape v"
  shows "emailShape v"
proof -
  define dom where "dom = tl (dropWhile (\<lambda>c. c \<noteq> 0x40) v)"
  define k where "k = length (takeWhile (\<lambda>c. c \<noteq> 0x2E) (rev dom))"
  from assms have ws: "\<not> list_ex isStrWhiteSpaceChar v" and cnt: "count_list v 0x40 = 1"
    and lne: "takeWhile (\<lambda>c. c \<noteq> 0x40) v \<noteq> []" and dot: "0x2E \<in> set dom"
    and k: "2 \<le> k" "k + 1 < length dom"
    unfolding specEmailShape_def Let_def dom_def k_def by simp_all
  from last_dot(1) [OF dot] have "dom ! (length dom - k - 1) = 0x2E" by (simp add: k_def)
  moreover from k have "length dom - k - 1 \<in> set [1 ..< length dom - 2]" by auto
  ultimately have "list_ex (\<lambda>i. dom ! i = 0x2E) [1 ..< length dom - 2]"
    unfolding list_ex_iff by blast
  with ws cnt lne show ?thesis
    unfolding emailShape_def Let_def dom_def by blast
qed

lemma consumes_Lit: "consumes (Lit w) {w}"
proof (induction w)
  case Nil
  show ?case by (simp add: consumes_Eps)
next
  case (Cons c w)
  have "conc {[c]} {w} = {c # w}" by (auto simp: conc_iff)
  with consumes_Seq [OF consumes_Chr Cons, of c] show ?case by simp
qed

lemma consumes_scheme:
  "consumes (Opt (Seqs [Lit (js ''http''), Opt (Chr 0x73), Lit (js ''://'')])) urlSchemes"
  unfolding urlSchemes_def Seqs_simps Seqs.simps(2)
  by (intro consumes_Opt consumes_Seq consumes_Lit consumes_Chr)

lemma urlSchemes_eq: "urlSchemes = {[], js ''http://'', js ''https://''}"
proof -
  have a: "conc (insert [] {[0x73]}) {z} = {z, 0x73 # z}" for z :: jsstring
    unfolding conc_def by auto
  have b: "conc {x} {y, z} = {x @ y, x @ z}" for x y z :: jsstring
    unfolding conc_def by auto
  have c: "js ''http'' @ js ''://'' = js ''http://''" "js ''http'' @ 0x73 # js ''://'' = js ''https://''"
    by (simp_all add: js_def)
  show ?thesis unfolding urlSchemes_def a b c ..
qed

lemma consumes_labels: "consumes (Rep 1 (Seq (Rep 1 (Cls wordOrDash)) (Chr 0x2E))) urlLabels"
proof -
  have "[] \<notin> conc (wordsOf 1 wordOrDash) {[0x2E]}" by (simp add: conc_iff)
  with consumes_Seq [OF consumes_words consumes_Chr] show ?thesis
    unfolding urlLabels_def by (rule consumes_Rep)
qed

lemma consumes_path: "consumes (Opt (Seq (Chr 0x2F) (Rep 0 (Cls notSpace)))) urlPaths"
  unfolding urlPaths_def
  by (intro consumes_Opt consumes_Seq consumes_Chr consumes_words)

lemma url_language:
  "test urlRegex v \<longleftrightarrow> v \<in> conc urlSchemes (conc urlLabels (conc (wordsOf 2 wordOrDash) urlPaths))"
proof -
  have "accepts (Seqs [Opt (Seqs [Lit (js ''http''), Opt (Chr 0x73), Lit (js ''://'')]),
      Rep 1 (Seq (Rep 1 (Cls wordOrDash)) (Chr 0x2E)),
      Rep 2 (Cls wordOrDash),
      Opt (Seq (Chr 0x2F) (Rep 0 (Cls notSpace))),
      Eos])
    (conc urlSchemes (conc urlLabels (conc (wordsOf 2 wordOrDash) (conc urlPaths {[]}))))"
    unfolding Seqs_simps Seqs.simps(2)
    by (intro accepts_Seq accepts_Eos consumes_scheme [unfolded Seqs_simps Seqs.simps(2)]
        consumes_labels consumes_words consumes_path)
  from test_Bos [OF this, of v] show ?thesis
    unfolding urlRegex_def Seqs_simps by (simp only: conc_Nil)
qed

lemma urlLabels_iff:
  "w \<in> urlLabels \<longleftrightarrow>
     (\<exists>ls. ls \<noteq> [] \<and> (\<forall>l \<in> set ls. l \<noteq> [] \<and> list_all wordOrDash l) \<and> w = concat (map (\<lambda>l. l @ [0x2E]) ls))"
proof
  assume "w \<in> urlLabels"
  then obtain us where us: "w = concat us" "1 \<le> length us" "set us \<subseteq> conc (wordsOf 1 wordOrDash) {[0x2E]}"
    unfolding urlLabels_def repeats_def by blast
  have each: "butlast u \<noteq> [] \<and> list_all wordOrDash (butlast u) \<and> butlast u @ [0x2E] = u" if "u \<in> set us" for u
  proof -
    from that us(3) have "u \<in> conc (wordsOf 1 wordOrDash) {[0x2E]}" by blast
    then obtain l where "l \<in> wordsOf 1 wordOrDash" "u = l @ [0x2E]"
      unfolding conc_iff by blast
    then show ?thesis by (auto simp: wordsOf_iff)
  qed
  then have "map (\<lambda>l. l @ [0x2E]) (map butlast us) = us"
    by (simp add: map_idI)
  moreover have "map butlast us \<noteq> []" using us(2) by auto
  moreover have "\<forall>l \<in> set (map butlast us). l \<noteq> [] \<and> list_all wordOrDash l"
    using each by auto
  ultimately have "map butlast us \<noteq> [] \<and> (\<forall>l \<in> set (map butlast us). l \<noteq> [] \<and> list_all wordOrDash l)
      \<and> w = concat (map (\<lambda>l. l @ [0x2E]) (map butlast us))"
    using us(1) by simp
  then show "\<exists>ls. ls \<noteq> [] \<and> (\<forall>l \<in> set ls. l \<noteq> [] \<and> list_all wordOrDash l) \<and> w = concat (map (\<lambda>l. l @ [0x2E]) ls)"
    by (rule exI)
next
  assume "\<exists>ls. ls \<noteq> [] \<and> (\<forall>l \<in> set ls. l \<noteq> [] \<and> list_all wordOrDash l) \<and> w = concat (map (\<lambda>l. l @ [0x2E]) ls)"
  then obtain ls where ls: "ls \<noteq> []" "\<forall>l \<in> set ls. l \<noteq> [] \<and> list_all wordOrDash l"
    "w = concat (map (\<lambda>l. l @ [0x2E]) ls)" by blast
  have "set (map (\<lambda>l. l @ [0x2E]) ls) \<subseteq> conc (wordsOf 1 wordOrDash) {[0x2E]}"
  proof
    fix u assume "u \<in> set (map (\<lambda>l. l @ [0x2E]) ls)"
    then obtain l where "l \<in> set ls" "u = l @ [0x2E]" by auto
    with ls(2) have "l \<in> wordsOf 1 wordOrDash" by (auto simp: wordsOf_iff Suc_le_eq)
    with \<open>u = l @ [0x2E]\<close> show "u \<in> conc (wordsOf 1 wordOrDash) {[0x2E]}"
      unfolding conc_iff by blast
  qed
  moreover have "1 \<le> length (map (\<lambda>l. l @ [0x2E]) ls)" using ls(1) by (cases ls) simp_all
  ultimately show "w \<in> urlLabels"
    unfolding urlLabels_def repeats_def using ls(3) by blast
qed

lemma urlPaths_iff: "w \<in> urlPaths \<longleftrightarrow> w = [] \<or> (\<exists>p. w = 0x2F # p \<and> list_all notSpace p)"
  unfolding urlPaths_def by (auto simp: conc_single wordsOf_iff)

lemma test_urlRegex: "test urlRegex v \<longleftrightarrow> specUrlShape v"
proof -
  have "v \<in> conc urlSchemes (conc urlLabels (conc (wordsOf 2 wordOrDash) urlPaths)) \<longleftrightarrow> specUrlShape v"
    (is "?L \<longleftrightarrow> ?R")
  proof
    assume ?L
    then obtain sc r1 where sc: "sc \<in> urlSchemes" "v = sc @ r1"
      and "r1 \<in> conc urlLabels (conc (wordsOf 2 wordOrDash) urlPaths)"
      unfolding conc_iff [of v] by blast
    then obtain lb r2 where lb: "lb \<in> urlLabels" "r1 = lb @ r2"
      and "r2 \<in> conc (wordsOf 2 wordOrDash) urlPaths"
      unfolding conc_iff [of r1] by blast
    then obtain tld path where tp: "tld \<in> wordsOf 2 wordOrDash" "path \<in> urlPaths" "r2 = tld @ path"
      unfolding conc_iff [of r2] by blast
    from lb(1) obtain ls where ls: "ls \<noteq> []" "\<forall>l \<in> set ls. l \<noteq> [] \<and> list_all wordOrDash l"
      "lb = concat (map (\<lambda>l. l @ [0x2E]) ls)"
      unfolding urlLabels_iff by blast
    have "v = sc @ concat (map (\<lambda>l. l @ [0x2E]) ls) @ tld @ path"
      by (simp add: sc(2) lb(2) tp(3) ls(3))
    moreover have "sc \<in> {[], js ''http://'', js ''https://''}" using sc(1) by (simp only: urlSchemes_eq)
    moreover have "2 \<le> length tld" "list_all wordOrDash tld" using tp(1) by (simp_all add: wordsOf_iff)
    moreover have "path = [] \<or> (\<exists>p. path = 0x2F # p \<and> list_all notSpace p)"
      using tp(2) by (simp only: urlPaths_iff)
    ultimately show ?R unfolding specUrlShape_def using ls(1,2) by blast
  next
    assume ?R
    then obtain sc ls tld path where p: "v = sc @ concat (map (\<lambda>l. l @ [0x2E]) ls) @ tld @ path"
      "sc \<in> {[], js ''http://'', js ''https://''}" "ls \<noteq> []"
      "\<forall>l \<in> set ls. l \<noteq> [] \<and> list_all wordOrDash l" "2 \<le> length tld" "list_all wordOrDash tld"
      "path = [] \<or> (\<exists>p. path = 0x2F # p \<and> list_all notSpace p)"
      unfolding specUrlShape_def by blast
    have 1: "sc \<in> urlSchemes" using p(2) by (simp only: urlSchemes_eq)
    have 2: "concat (map (\<lambda>l. l @ [0x2E]) ls) \<in> urlLabels"
      unfolding urlLabels_iff using p(3,4) by blast
    have 3: "tld \<in> wordsOf 2 wordOrDash" using p(5,6) by (simp add: wordsOf_iff)
    have 4: "path \<in> urlPaths" using p(7) by (simp only: urlPaths_iff)
    from 3 4 have "tld @ path \<in> conc (wordsOf 2 wordOrDash) urlPaths"
      unfolding conc_iff [of "tld @ path"] by blast
    with 2 have "concat (map (\<lambda>l. l @ [0x2E]) ls) @ tld @ path
        \<in> conc urlLabels (conc (wordsOf 2 wordOrDash) urlPaths)"
      unfolding conc_iff [of "concat (map (\<lambda>l. l @ [0x2E]) ls) @ tld @ path"] by blast
    with 1 have "sc @ concat (map (\<lambda>l. l @ [0x2E]) ls) @ tld @ path
        \<in> conc urlSchemes (conc urlLabels (conc (wordsOf 2 wordOrDash) urlPaths))"
      unfolding conc_iff [of "sc @ concat (map (\<lambda>l. l @ [0x2E]) ls) @ tld @ path"] by blast
    then show ?L by (simp only: p(1))
  qed
  then show ?thesis by (simp only: url_language)
qed


section \<open>Sample inputs\<close>

lemma url_examples:
  "trim [] = []" "test urlRegex (trim (js ''example.com''))"
  "test urlRegex (trim (js ''https://example.co/path''))" "\<not> test urlRegex (trim (js ''not a url''))"
  "trim (js ''not a url'') \<noteq> []"
  by code_simp+

lemma number_examples:
  "Number (js ''13'') = Fin 13" "Number (js ''120'') = Fin 120" "Number (js ''12'') = Fin 12"
  "Number (js ''121'') = Fin 121" "Number [] = Fin 0" "Number (js ''abc'') = NaN"
  "Number (js ''0'') = Fin 0"
  by code_simp+

lemma ageOk_spec: "ageOk d = specAgeValid (fieldValue ''age'' d)"
  by (simp add: ageOk_def specAgeValid_def truthy_def lessThan_def greaterThan_def Let_def
      split: jsnum.splits) auto


section \<open>The claims\<close>

text \<open>
  Claim C1 says that validateEmail accepts exactly the trimmed strings whose final
  label, the part after the last dot, has at least two characters. The pattern only asks
  for some dot with two or more characters after it, and these may hold dots:
  \<^verbatim>\<open>a@b.c.d\<close> is accepted although its final label is the single character
  \<^verbatim>\<open>d\<close>.
\<close>

theorem email_final_label_may_be_short:
  "returned (validateEmail (userInput ''email'' (js ''a@b.c.d'') False filledForm)) = Some True
   \<and> \<not> specEmailShape (trim (js ''a@b.c.d''))"
  by code_simp

text \<open>
  Claim C1, as the code has it. validateEmail returns true exactly when the trimmed
  value holds no white space and exactly one \<^verbatim>\<open>@\<close>, with something before it, and
  the part after the \<^verbatim>\<open>@\<close> has a dot with at least one character before it and at
  least two characters after it (which may themselves hold dots). When it returns
  false the error text is exactly ``Please enter a valid email address.''. Every
  string of the shape of the specification, whose final label has two or more
  characters, is accepted.
\<close>

theorem validateEmail_shape:
  assumes "wired d"
  shows "\<exists>d'. validateEmail d = Inr (emailShape (trim (fieldValue ''email'' d)), d')
       \<and> (\<not> emailShape (trim (fieldValue ''email'' d)) \<longrightarrow>
             errorText ''email'' d' = Some (js ''Please enter a valid email address.''))
       \<and> (specEmailShape (trim (fieldValue ''email'' d)) \<longrightarrow> emailShape (trim (fieldValue ''email'' d)))"
  using wiredD [OF assms]
  by (simp add: validateEmail_nf emailOk_def test_emailRegex_shape errorText_report emailMessage_def
      specEmailShape_imp_shape)

theorem validateEmail_shape_witness:
  "wired (userInput ''email'' (js '' a@b.c.d '') False filledForm)
   \<and> (\<exists>d'. validateEmail (userInput ''email'' (js '' a@b.c.d '') False filledForm) = Inr (True, d'))"
proof -
  let ?d = "userInput ''email'' (js '' a@b.c.d '') False filledForm"
  have w: "wired ?d" by code_simp
  have e: "emailShape (trim (fieldValue ''email'' ?d))" by code_simp
  from validateEmail_shape [OF w] e w show ?thesis by auto
qed

text \<open>
  Claim C2 says that every validator, the one of the terms checkbox included, marks its
  field with the class \<^verbatim>\<open>invalid\<close> when it fails. validateTerms writes the error text
  only: on the sample page with the box unticked it returns false and the checkbox
  stays unmarked.
\<close>

theorem terms_failure_sets_no_marker:
  "returned (validateTerms (userInput ''terms'' (js ''on'') False filledForm)) = Some False
   \<and> \<not> markedInvalid ''terms'' (docAfter (validateTerms (userInput ''terms'' (js ''on'') False filledForm)))"
  by code_simp

text \<open>
  Claim C2, as the code has it. On a page with every control and label, each of the six
  validators of the text fields returns a boolean, leaves the error label of its field
  empty when it returned true and holding its (non-empty) message when it returned
  false, and leaves the field marked \<^verbatim>\<open>invalid\<close> exactly when it returned false.
  validateTerms does the same to the error label of the checkbox and leaves the
  checkbox itself, and so its class list, as it was.
\<close>

theorem validators_sync_display:
  assumes "wired d"
  shows "list_all (\<lambda>(i, msg, f). \<exists>b d'. f d = Inr (b, d') \<and> msg \<noteq> []
             \<and> errorText i d' = Some (if b then [] else msg) \<and> markedInvalid i d' = (\<not> b)) textFields
         \<and> (\<exists>b d'. validateTerms d = Inr (b, d') \<and> termsMessage \<noteq> []
             \<and> errorText ''terms'' d' = Some (if b then [] else termsMessage)
             \<and> getElementById ''terms'' d' = getElementById ''terms'' d)"
  using wiredD [OF assms]
  by (simp add: textFields_def validator_nfs errorText_report errorText_reportText markedInvalid_report
      messages_nonempty getElementById_reportText_other)

theorem validators_sync_display_witness:
  "wired (userInput ''email'' (js ''a@b'') False filledForm)
   \<and> (\<exists>d'. validateEmail (userInput ''email'' (js ''a@b'') False filledForm) = Inr (False, d')
         \<and> errorText ''email'' d' = Some emailMessage \<and> markedInvalid ''email'' d')"
proof -
  let ?d = "userInput ''email'' (js ''a@b'') False filledForm"
  have w: "wired ?d" by code_simp
  have r: "returned (validateEmail ?d) = Some False" by code_simp
  from validators_sync_display [OF w]
  obtain b d' where "validateEmail ?d = Inr (b, d')"
    "errorText ''email'' d' = Some (if b then [] else emailMessage)" "markedInvalid ''email'' d' = (\<not> b)"
    by (auto simp: textFields_def)
  with r w show ?thesis by (auto simp: returned_def)
qed

text \<open>
  Claim C3. On a page with every control and label the aggregate run of the submit
  handler calls all seven validators and returns true exactly when each of the seven,
  run alone on the submitted page, returns true. Afterwards the error label of every
  field is empty or holds the message of the field according to the verdict of that
  field's own validator, and each of the six text fields is marked \<^verbatim>\<open>invalid\<close>
  exactly when its own validator fails: no failure keeps a later validator from
  running.
\<close>

theorem validateAll_runs_every_validator:
  assumes "wired d"
  shows "\<exists>d'. validateAll d = Inr (list_all (\<lambda>(i, msg, f). returned (f d) = Some True) allFields, d')
          \<and> list_all (\<lambda>(i, msg, f). errorText i d' = Some (if returned (f d) = Some True then [] else msg)) allFields
          \<and> list_all (\<lambda>(i, msg, f). markedInvalid i d' = (returned (f d) \<noteq> Some True)) textFields"
  using wiredD [OF assms]
  by (simp add: validateAll_def validators_def bindE_def allFields_def textFields_def validator_nfs
      returned_def errorText_report errorText_reportText markedInvalid_report)

theorem validateAll_runs_every_validator_witness:
  "wired (userInput ''name'' [] False (userInput ''age'' (js ''12'') False filledForm))
   \<and> (\<exists>d'. validateAll (userInput ''name'' [] False (userInput ''age'' (js ''12'') False filledForm))
               = Inr (False, d')
          \<and> errorText ''name'' d' = Some nameMessage \<and> errorText ''age'' d' = Some ageMessage
          \<and> errorText ''email'' d' = Some [])"
proof -
  let ?d = "userInput ''name'' [] False (userInput ''age'' (js ''12'') False filledForm)"
  have w: "wired ?d" by code_simp
  have n: "returned (validateName ?d) = Some False" by code_simp
  have a: "returned (validateAge ?d) = Some False" by code_simp
  have e: "returned (validateEmail ?d) = Some True" by code_simp
  from validateAll_runs_every_validator [OF w] obtain d' where
    r: "validateAll ?d = Inr (list_all (\<lambda>(i, msg, f). returned (f ?d) = Some True) allFields, d')"
    and t: "list_all (\<lambda>(i, msg, f). errorText i d' = Some (if returned (f ?d) = Some True then [] else msg)) allFields"
    by blast
  from r n have "validateAll ?d = Inr (False, d')"
    by (simp add: allFields_def textFields_def)
  moreover from t n a e have "errorText ''name'' d' = Some nameMessage"
    "errorText ''age'' d' = Some ageMessage" "errorText ''email'' d' = Some []"
    by (simp_all add: allFields_def textFields_def)
  ultimately show ?thesis using w by blast
qed




text \<open>
  Claim C5. validateAge returns true exactly when the value of the age field, coerced
  to a number, is numeric, not zero, and between 13 and 120 inclusive. ``13'' and
  ``120'' are valid; ``12'', ``121'', the empty string, ``abc'' and ``0'' are invalid:
  the empty string and ``0'' coerce to 0 and ``abc'' to NaN, and neither is truthy.
\<close>

theorem validateAge_range:
  assumes "wired d"
  shows "returned (validateAge d) = Some (specAgeValid (fieldValue ''age'' d))
       \<and> (fieldValue ''age'' d = js ''13'' \<longrightarrow> returned (validateAge d) = Some True)
       \<and> (fieldValue ''age'' d = js ''120'' \<longrightarrow> returned (validateAge d) = Some True)
       \<and> (fieldValue ''age'' d = js ''12'' \<longrightarrow> returned (validateAge d) = Some False)
       \<and> (fieldValue ''age'' d = js ''121'' \<longrightarrow> returned (validateAge d) = Some False)
       \<and> (fieldValue ''age'' d = [] \<longrightarrow> returned (validateAge d) = Some False)
       \<and> (fieldValue ''age'' d = js ''abc'' \<longrightarrow> returned (validateAge d) = Some False)
       \<and> (fieldValue ''age'' d = js ''0'' \<longrightarrow> returned (validateAge d) = Some False)
       \<and> Number [] = Fin 0 \<and> Number (js ''0'') = Fin 0 \<and> Number (js ''abc'') = NaN
       \<and> \<not> truthy (Fin 0) \<and> \<not> truthy NaN"
proof -
  have r: "returned (validateAge d) = Some (specAgeValid (fieldValue ''age'' d))"
    using returned_validators(5) [OF assms] by (simp only: ageOk_spec)
  have "specAgeValid (js ''13'')" "specAgeValid (js ''120'')" "\<not> specAgeValid (js ''12'')"
    "\<not> specAgeValid (js ''121'')" "\<not> specAgeValid []" "\<not> specAgeValid (js ''abc'')"
    "\<not> specAgeValid (js ''0'')"
    by (simp_all add: specAgeValid_def number_examples)
  then show ?thesis unfolding r by (simp add: number_examples truthy_def)
qed

theorem validateAge_range_witness:
  "wired (userInput ''age'' (js ''120'') False filledForm)
   \<and> returned (validateAge (userInput ''age'' (js ''120'') False filledForm)) = Some True"
proof -
  let ?d = "userInput ''age'' (js ''120'') False filledForm"
  have w: "wired ?d" by code_simp
  have v: "fieldValue ''age'' ?d = js ''120''" by code_simp
  from validateAge_range [OF w]
  have "fieldValue ''age'' ?d = js ''120'' \<longrightarrow> returned (validateAge ?d) = Some True" by blast
  with v w show ?thesis by blast
qed

text \<open>
  Claim C6 says that making one field invalid leaves the validity of every other field
  as it was, also when the field is the password. On the sample page, where every field
  is valid, a new invalid password makes validateConfirm fail as well.
\<close>

theorem password_change_breaks_confirm:
  "returned (validateAll filledForm) = Some True
   \<and> returned (validatePassword (userInput ''password'' (js ''short'') False filledForm)) = Some False
   \<and> returned (validateConfirm filledForm) = Some True
   \<and> returned (validateConfirm (userInput ''password'' (js ''short'') False filledForm)) = Some False"
  by code_simp

text \<open>
  Claim C6, as the code has it. On a page where every field is valid, a new value of one
  field on which the validator of that field fails makes the aggregate validation
  return false, and the validator of every other field returns what it returned before,
  with one exception: when the changed field is the password, validateConfirm, which
  compares with the password, now returns false.
\<close>

theorem single_invalid_field:
  assumes w: "wired d" and ok: "returned (validateAll d) = Some True"
    and mem: "(i, msg, f) \<in> set allFields"
    and bad: "returned (f (userInput i v c d)) = Some False"
  shows "returned (validateAll (userInput i v c d)) = Some False
       \<and> list_all (\<lambda>(j, m, g). j = i \<or> (i = ''password'' \<and> j = ''confirm-password'')
                     \<or> returned (g (userInput i v c d)) = returned (g d)) allFields
       \<and> (i = ''password'' \<longrightarrow> returned (validateConfirm (userInput i v c d)) = Some False)"
proof -
  from flip_each [OF w ok, of v c] mem
  have "returned (f (userInput i v c d)) = Some False \<longrightarrow> flipEffect d i v c"
    unfolding list_all_iff by fast
  with bad show ?thesis by (simp add: flipEffect_def)
qed

theorem single_invalid_field_witness:
  "wired filledForm \<and> returned (validateAll filledForm) = Some True
   \<and> (''password'', passwordMessage, validatePassword) \<in> set allFields
   \<and> returned (validatePassword (userInput ''password'' (js ''short'') False filledForm)) = Some False
   \<and> returned (validateAll (userInput ''password'' (js ''short'') False filledForm)) = Some False
   \<and> returned (validateEmail (userInput ''password'' (js ''short'') False filledForm))
       = returned (validateEmail filledForm)
   \<and> returned (validateConfirm (userInput ''password'' (js ''short'') False filledForm)) = Some False"
proof -
  have w: "wired filledForm" by code_simp
  have ok: "returned (validateAll filledForm) = Some True" by code_simp
  have mem: "(''password'', passwordMessage, validatePassword) \<in> set allFields"
    by (simp add: allFields_def textFields_def)
  have bad: "returned (validatePassword (userInput ''password'' (js ''short'') False filledForm)) = Some False"
    by code_simp
  from single_invalid_field [OF w ok mem bad] w ok mem bad show ?thesis
    by (simp add: allFields_def textFields_def)
qed

text \<open>
  Claim C7. A validator that has returned returns the same boolean when it is run
  again at once, and the second run leaves the page exactly as the first left it.
\<close>

theorem validators_idempotent:
  assumes "f \<in> set validators" and "f d = Inr (b, d1)"
  shows "f d1 = Inr (b, d1)"
proof -
  consider "f = validateName" | "f = validateEmail" | "f = validatePassword" | "f = validateConfirm"
    | "f = validateAge" | "f = validateWebsite" | "f = validateTerms"
    using assms(1) by (auto simp: validators_def)
  then show ?thesis
  proof cases
    case 1
    with assms(2) show ?thesis
      by (auto simp: validateName_nf report_idem split: if_splits)
  next
    case 2
    with assms(2) show ?thesis
      by (auto simp: validateEmail_nf report_idem split: if_splits)
  next
    case 3
    with assms(2) show ?thesis
      by (auto simp: validatePassword_nf report_idem split: if_splits)
  next
    case 4
    with assms(2) show ?thesis
      by (auto simp: validateConfirm_nf report_idem split: if_splits)
  next
    case 5
    with assms(2) show ?thesis
      by (auto simp: validateAge_nf report_idem split: if_splits)
  next
    case 6
    with assms(2) show ?thesis
      by (auto simp: validateWebsite_nf report_idem split: if_splits)
  next
    case 7
    with assms(2) show ?thesis
      by (auto simp: validateTerms_nf reportText_idem split: if_splits)
  qed
qed

theorem validators_idempotent_witness:
  "validateAge (userInput ''age'' (js ''12'') False filledForm)
     = Inr (False, docAfter (validateAge (userInput ''age'' (js ''12'') False filledForm)))
   \<and> validateAge (docAfter (validateAge (userInput ''age'' (js ''12'') False filledForm)))
     = Inr (False, docAfter (validateAge (userInput ''age'' (js ''12'') False filledForm)))"
proof -
  let ?d = "userInput ''age'' (js ''12'') False filledForm"
  have m: "validateAge \<in> set validators" by (simp add: validators_def)
  have r: "validateAge ?d = Inr (False, docAfter (validateAge ?d))" by code_simp
  from validators_idempotent [OF m r] r show ?thesis by blast
qed

text \<open>
  Claim C8. validateWebsite returns true when the trimmed value is empty, and
  otherwise exactly when it has the shape of a loose URL: an optional \<^verbatim>\<open>http://\<close>
  or \<^verbatim>\<open>https://\<close>, one or more labels each followed by a dot, a final label of at
  least two characters, and an optional path. The empty string, ``example.com'' and
  ``https://example.co/path'' are valid, and ``not a url'' is invalid.
\<close>

theorem validateWebsite_shape:
  assumes "wired d"
  shows "returned (validateWebsite d)
           = Some (trim (fieldValue ''website'' d) = [] \<or> specUrlShape (trim (fieldValue ''website'' d)))
       \<and> (fieldValue ''website'' d = [] \<longrightarrow> returned (validateWebsite d) = Some True)
       \<and> (fieldValue ''website'' d = js ''example.com'' \<longrightarrow> returned (validateWebsite d) = Some True)
       \<and> (fieldValue ''website'' d = js ''https://example.co/path'' \<longrightarrow> returned (validateWebsite d) = Some True)
       \<and> (fieldValue ''website'' d = js ''not a url'' \<longrightarrow> returned (validateWebsite d) = Some False)"
proof -
  have r: "returned (validateWebsite d) = Some (websiteOk d)"
    by (rule returned_validators [OF assms])
  have "websiteOk d = (trim (fieldValue ''website'' d) = [] \<or> specUrlShape (trim (fieldValue ''website'' d)))"
    by (simp add: websiteOk_def Let_def test_urlRegex)
  moreover have "fieldValue ''website'' d = [] \<Longrightarrow> websiteOk d"
    "fieldValue ''website'' d = js ''example.com'' \<Longrightarrow> websiteOk d"
    "fieldValue ''website'' d = js ''https://example.co/path'' \<Longrightarrow> websiteOk d"
    "fieldValue ''website'' d = js ''not a url'' \<Longrightarrow> \<not> websiteOk d"
    by (simp_all add: websiteOk_def Let_def url_examples)
  ultimately show ?thesis unfolding r by simp
qed

theorem validateWebsite_shape_witness:
  "wired (userInput ''website'' (js ''example.com'') False filledForm)
   \<and> returned (validateWebsite (userInput ''website'' (js ''example.com'') False filledForm)) = Some True
   \<and> specUrlShape (js ''example.com'')"
proof -
  let ?d = "userInput ''website'' (js ''example.com'') False filledForm"
  have w: "wired ?d" by code_simp
  have v: "fieldValue ''website'' ?d = js ''example.com''" by code_simp
  have t: "trim (fieldValue ''website'' ?d) = js ''example.com''" by code_simp
  have ne: "js ''example.com'' \<noteq> []" by code_simp
  note th = validateWebsite_shape [OF w]
  from th have a: "returned (validateWebsite ?d)
      = Some (trim (fieldValue ''website'' ?d) = [] \<or> specUrlShape (trim (fieldValue ''website'' ?d)))"
    by (rule conjunct1)
  from th have "fieldValue ''website'' ?d = js ''example.com'' \<longrightarrow> returned (validateWebsite ?d) = Some True"
    by blast
  with v have c: "returned (validateWebsite ?d) = Some True" by blast
  from a c have "trim (fieldValue ''website'' ?d) = [] \<or> specUrlShape (trim (fieldValue ''website'' ?d))"
    by simp
  then have "js ''example.com'' = [] \<or> specUrlShape (js ''example.com'')" unfolding t .
  with ne have "specUrlShape (js ''example.com'')" by blast
  with w c show ?thesis by blast
qed

text \<open>
  Claim C9. On a page that holds every control and every error label, each of the
  seven validators returns a boolean together with the page it leaves; none throws.
  The functions are total: the only recursion, that of the matcher, terminates.
\<close>

theorem validators_never_throw:
  assumes "wired d"
  shows "\<forall>f \<in> set validators. \<exists>b d'. f d = Inr (b, d')"
  using wiredD [OF assms] by (simp add: validators_def validator_nfs)

theorem validators_never_throw_witness:
  "wired filledForm \<and> (\<exists>b d'. validateAge filledForm = Inr (b, d'))"
proof -
  have w: "wired filledForm" by code_simp
  have "validateAge \<in> set validators" by (simp add: validators_def)
  with validators_never_throw [OF w] have "\<exists>b d'. validateAge filledForm = Inr (b, d')" by blast
  with w show ?thesis by blast
qed

text \<open>
  Claim C10. validateConfirm asks for nothing but equality of the two raw values: it
  returns true exactly when the value of the confirm field equals the value of the
  password field. With both fields empty it returns true, empties the error label of
  the confirm field and leaves the field unmarked, although validatePassword returns
  false on the same page.
\<close>

theorem validateConfirm_compares_raw_values:
  assumes "wired d"
  shows "\<exists>d'. validateConfirm d = Inr (fieldValue ''confirm-password'' d = fieldValue ''password'' d, d')
           \<and> (fieldValue ''confirm-password'' d = [] \<and> fieldValue ''password'' d = [] \<longrightarrow>
                 errorText ''confirm-password'' d' = Some [] \<and> \<not> markedInvalid ''confirm-password'' d'
                 \<and> returned (validatePassword d) = Some False)"
proof -
  note w = wiredD [OF assms]
  let ?d' = "report ''confirm-password'' confirmMessage (confirmOk d) d"
  have run: "validateConfirm d = Inr (confirmOk d, ?d')"
    using w by (simp add: validateConfirm_nf)
  have pw: "fieldValue ''password'' d = [] \<Longrightarrow> returned (validatePassword d) = Some False"
    using w by (simp add: validatePassword_nf returned_def passwordOk_def empty_password_rejected)
  have etx: "errorText ''confirm-password'' ?d' = Some (if confirmOk d then [] else confirmMessage)"
    using w by (simp add: errorText_report)
  have mk: "markedInvalid ''confirm-password'' ?d' = (\<not> confirmOk d)"
    using w by (simp add: markedInvalid_report)
  show ?thesis
    using run pw etx mk by (auto simp: confirmOk_def)
qed

theorem validateConfirm_compares_raw_values_witness:
  "wired (userInput ''password'' [] False (userInput ''confirm-password'' [] False filledForm))
   \<and> (\<exists>d'. validateConfirm (userInput ''password'' [] False (userInput ''confirm-password'' [] False filledForm))
             = Inr (True, d')
           \<and> errorText ''confirm-password'' d' = Some [] \<and> \<not> markedInvalid ''confirm-password'' d')
   \<and> returned (validatePassword (userInput ''password'' [] False (userInput ''confirm-password'' [] False filledForm)))
       = Some False"
proof -
  let ?d = "userInput ''password'' [] False (userInput ''confirm-password'' [] False filledForm)"
  have w: "wired ?d" by code_simp
  have c: "fieldValue ''confirm-password'' ?d = []" by code_simp
  have p: "fieldValue ''password'' ?d = []" by code_simp
  show ?thesis
    using w validateConfirm_compares_raw_values [OF w] unfolding c p by auto
qed

end
